(* ===== verification/Prelude.thy ===== *)
theory Prelude
  imports Main "HOL-Library.Word" "HOL-Library.Signed_Division" "HOL-Library.Monad_Syntax"
begin

text \<open>
  What the components share: the C types of the sources as HOL types, the
  named collections of simplification and preservation rules, and the generic
  lemmas on bounded integers, options and lists.

  A C \<open>int\<close> is an \<^typ>\<open>int\<close> whose every arithmetic result is brought back
  into the 32-bit range by \<open>c_int\<close> (two's complement wrap-around);
  \<open>uint64_t\<close> and \<open>size_t\<close> are \<open>64 word\<close>. Division and
  remainder are \<open>sdiv\<close> and \<open>smod\<close>, which truncate towards zero as C does.
  A computation whose C behaviour is undefined (a NULL or dangling pointer, a
  double free, an index out of range, a division by zero) has the value
  \<^term>\<open>None\<close>; a NULL-able pointer or string is an \<open>option\<close> as well.
\<close>

named_theorems cint_simps
  \<comment> \<open>wrap-around that does not happen inside the range of int\<close>
named_theorems frame
  \<comment> \<open>what an operation leaves unchanged\<close>

type_synonym u64 = "64 word"
type_synonym addr = nat
type_synonym timeval = "int \<times> int"

section \<open>32-bit signed integers\<close>

definition INT_MAX :: int where "INT_MAX = 2147483647"
definition INT_MIN :: int where "INT_MIN = - 2147483648"

definition c_int :: "int \<Rightarrow> int" where
  "c_int x = (x + 2147483648) mod 4294967296 - 2147483648"

definition in_int :: "int \<Rightarrow> bool" where
  "in_int x \<longleftrightarrow> INT_MIN \<le> x \<and> x \<le> INT_MAX"

lemma c_int_id [cint_simps]: "in_int x \<Longrightarrow> c_int x = x"
  by (simp add: c_int_def in_int_def INT_MIN_def INT_MAX_def)

lemma in_int_c_int [simp, intro]: "in_int (c_int x)"
proof -
  have "0 \<le> (x + 2147483648) mod 4294967296" "(x + 2147483648) mod 4294967296 < 4294967296"
    by simp_all
  then show ?thesis by (simp add: c_int_def in_int_def INT_MIN_def INT_MAX_def)
qed

lemma c_int_mod: "c_int x mod 4294967296 = x mod 4294967296"
proof -
  have "c_int x mod 4294967296
      = ((x + 2147483648) mod 4294967296 - 2147483648) mod 4294967296"
    by (simp only: c_int_def)
  also have "\<dots> = (x + 2147483648 - 2147483648) mod 4294967296"
    by (rule mod_diff_left_eq)
  finally show ?thesis by simp
qed

lemma c_int_cong: "x mod 4294967296 = y mod 4294967296 \<Longrightarrow> c_int x = c_int y"
  unfolding c_int_def using mod_add_cong [of x 4294967296 y 2147483648 2147483648] by simp

lemma c_int_add_left [simp]: "c_int (c_int x + y) = c_int (x + y)"
  by (rule c_int_cong) (metis c_int_mod mod_add_left_eq)

lemma c_int_add_right [simp]: "c_int (x + c_int y) = c_int (x + y)"
  by (rule c_int_cong) (metis c_int_mod mod_add_right_eq)

lemma c_int_diff_left [simp]: "c_int (c_int x - y) = c_int (x - y)"
  by (rule c_int_cong) (metis c_int_mod mod_diff_left_eq)

lemma c_int_diff_right [simp]: "c_int (x - c_int y) = c_int (x - y)"
  by (rule c_int_cong) (metis c_int_mod mod_diff_right_eq)

lemma c_int_idem [simp]: "c_int (c_int x) = c_int x"
  by (simp add: c_int_id)

lemma in_int_small: "0 \<le> x \<Longrightarrow> x \<le> INT_MAX \<Longrightarrow> in_int x"
  by (simp add: in_int_def INT_MIN_def INT_MAX_def)

lemma c_int_0 [simp]: "c_int 0 = 0"
  by (simp add: c_int_def)

section \<open>Truncating division\<close>

lemma sdiv_nonneg: "0 \<le> (a::int) \<Longrightarrow> 0 < b \<Longrightarrow> a sdiv b = a div b"
  by (cases "a = 0") (simp_all add: signed_divide_int_def)

lemma smod_nonneg: "0 \<le> (a::int) \<Longrightarrow> 0 < b \<Longrightarrow> a smod b = a mod b"
  by (cases "a = 0") (simp_all add: signed_modulo_int_def)

lemma sdiv_share:
  assumes "0 \<le> (a::int)" "0 < b"
  shows "b * (a sdiv b) \<le> a" and "a < b * (a sdiv b + 1)" and "0 \<le> a sdiv b"
proof -
  have eq: "a sdiv b = a div b" using assms by (rule sdiv_nonneg)
  have "b * (a div b) + a mod b = a" "0 \<le> a mod b" "a mod b < b"
    using assms by simp_all
  then show "b * (a sdiv b) \<le> a" "a < b * (a sdiv b + 1)"
    unfolding eq distrib_left by linarith+
  show "0 \<le> a sdiv b" unfolding eq using assms by (simp add: pos_imp_zdiv_nonneg_iff)
qed

lemma in_int_div: "0 \<le> x \<Longrightarrow> in_int x \<Longrightarrow> 0 < n \<Longrightarrow> in_int (x div n)"
proof (rule in_int_small)
  assume x: "0 \<le> x" "in_int x" "0 < n"
  then show "0 \<le> x div n" by (simp add: pos_imp_zdiv_nonneg_iff)
  have "n * (x div n) \<le> x" using sdiv_share(1) [of x n] sdiv_nonneg [of x n] x by simp
  moreover have "x div n \<le> n * (x div n)"
    using x \<open>0 \<le> x div n\<close> by (simp add: mult_le_cancel_right1)
  ultimately show "x div n \<le> INT_MAX" using x by (simp add: in_int_def)
qed

section \<open>Options and strings\<close>

definition strdup :: "bool \<Rightarrow> string \<Rightarrow> string option" where
  \<comment> \<open>the argument says whether the allocation succeeds\<close>
  "strdup ok s = (if ok then Some s else None)"

lemma strdup_simps [simp]: "strdup True s = Some s" "strdup False s = None"
  by (simp_all add: strdup_def)

lemma bind_eq_Some_iff:
  "(x \<bind> f) = Some y \<longleftrightarrow> (\<exists>z. x = Some z \<and> f z = Some y)"
  by (cases x) auto

end
