(* ===== verification/Numbers.thy ===== *)
theory Numbers
  imports Prelude
begin

text \<open>
  The two conversions of the C library the programs use on their arguments:
  \<open>strtoull(s, NULL, 10)\<close> and \<open>atoi(s)\<close>, which is \<open>(int) strtol(s, NULL, 10)\<close>.
  Leading white space and a sign are skipped, the longest run of digits is
  converted, a value out of range saturates.
\<close>

definition is_space :: "char \<Rightarrow> bool" where
  "is_space c \<longleftrightarrow> of_char c = (32::nat) \<or> (9 \<le> (of_char c :: nat) \<and> (of_char c :: nat) \<le> 13)"

definition is_digit :: "char \<Rightarrow> bool" where
  "is_digit c \<longleftrightarrow> 48 \<le> (of_char c :: nat) \<and> (of_char c :: nat) \<le> 57"

definition digit_val :: "char \<Rightarrow> nat" where
  "digit_val c = of_char c - 48"

definition digits_val :: "string \<Rightarrow> nat" where
  "digits_val s = foldl (\<lambda>n c. 10 * n + digit_val c) 0 (takeWhile is_digit s)"

fun sign_split :: "string \<Rightarrow> bool \<times> string" where
  \<comment> \<open>whether the number is negative, and what follows the sign\<close>
  "sign_split [] = (False, [])"
| "sign_split (c # s) = (if c = CHR ''-'' then (True, s)
     else if c = CHR ''+'' then (False, s) else (False, c # s))"

definition strtoull :: "string \<Rightarrow> u64" where
  "strtoull s =
     (let (neg, d) = sign_split (dropWhile is_space s);
          n = digits_val d
      in if n \<ge> 2 ^ 64 then - 1
         else if neg then - word_of_nat n else word_of_nat n)"

definition strtol :: "string \<Rightarrow> int" where
  "strtol s =
     (let (neg, d) = sign_split (dropWhile is_space s);
          n = int (digits_val d);
          v = (if neg then - n else n)
      in if v > 2 ^ 63 - 1 then 2 ^ 63 - 1 else if v < - (2 ^ 63) then - (2 ^ 63) else v)"

definition atoi :: "string \<Rightarrow> int" where
  "atoi s = c_int (strtol s)"

lemma unat_max: "unat (- 1 :: u64) = 2 ^ 64 - 1"
  by (simp add: unsigned_minus_1_eq_mask mask_eq_exp_minus_1)

section \<open>Decimal notation\<close>

definition digit_char :: "nat \<Rightarrow> char" where
  "digit_char d = char_of (48 + d)"

fun decimal :: "nat \<Rightarrow> string" where
  "decimal n = (if n < 10 then [digit_char n] else decimal (n div 10) @ [digit_char (n mod 10)])"

declare decimal.simps [simp del]

lemma digit_char_simps [simp]:
  assumes "d < 10"
  shows "is_digit (digit_char d)" "digit_val (digit_char d) = d" "\<not> is_space (digit_char d)"
    "digit_char d \<noteq> CHR ''-''" "digit_char d \<noteq> CHR ''+''"
proof -
  have d: "of_char (digit_char d) = (48 + d :: nat)"
    using assms by (simp add: digit_char_def)
  then show "is_digit (digit_char d)" "digit_val (digit_char d) = d" "\<not> is_space (digit_char d)"
    using assms by (simp_all add: is_digit_def digit_val_def is_space_def)
  show "digit_char d \<noteq> CHR ''-''" "digit_char d \<noteq> CHR ''+''"
    using d by auto
qed

lemma decimal_digits: "list_all is_digit (decimal n)"
proof (induction n rule: decimal.induct)
  case (1 n)
  then show ?case by (subst decimal.simps) (simp add: list_all_append)
qed

lemma takeWhile_digits: "list_all P xs \<Longrightarrow> takeWhile P xs = xs"
  by (induction xs) auto

lemma digits_val_decimal: "digits_val (decimal n) = n"
proof (induction n rule: decimal.induct)
  case (1 n)
  show ?case
  proof (cases "n < 10")
    case True
    then show ?thesis by (subst decimal.simps) (simp add: digits_val_def)
  next
    case False
    have eq: "decimal n = decimal (n div 10) @ [digit_char (n mod 10)]"
      using False by (subst decimal.simps) simp
    have "digits_val (decimal n) = 10 * digits_val (decimal (n div 10)) + n mod 10"
      using decimal_digits [of n] decimal_digits [of "n div 10"]
      unfolding digits_val_def eq by (simp add: takeWhile_digits)
    then show ?thesis using 1 False by simp
  qed
qed

lemma decimal_head: "\<exists>d s. decimal n = digit_char d # s \<and> d < 10"
proof (induction n rule: decimal.induct)
  case (1 n)
  then show ?case by (subst decimal.simps) (cases "n < 10", auto)
qed

lemma sign_split_decimal: "sign_split (dropWhile is_space (decimal n)) = (False, decimal n)"
  using decimal_head [of n] by auto

lemma strtoull_decimal: "n < 2 ^ 64 \<Longrightarrow> strtoull (decimal n) = word_of_nat n"
  by (simp add: strtoull_def sign_split_decimal digits_val_decimal)

lemma atoi_decimal: "int n \<le> INT_MAX \<Longrightarrow> atoi (decimal n) = int n"
  by (simp add: atoi_def strtol_def sign_split_decimal digits_val_decimal c_int_id in_int_def
      INT_MAX_def INT_MIN_def)

lemma atoi_range: "in_int (atoi s)"
  by (simp add: atoi_def)

end
