(* ===== verification/Config.thy ===== *)
theory Config
  imports Prelude
begin

text \<open>
  \<open>clt/mgr_config.h\<close> and \<open>clt/mgr_config.c\<close>: the configuration of a client
  manager, the fixed-size array of destination addresses with its round-robin
  cursor, and the division of a configuration between worker threads.

  The array of pointers \<open>char *ipv4[16]\<close> is a list of 16 NULL-able strings.
  The \<open>bool\<close>-valued arguments say which calls of \<open>strdup\<close> succeed.
\<close>

definition CFG_IPV4_ARRAY_MAX :: int where "CFG_IPV4_ARRAY_MAX = 16"

record cfg_ipv4_array =
  ipv4 :: "string option list"
  arr_n :: int
  arr_cur :: int

record mgr_config =
  num_threads :: int
  burst_conn :: int
  target_nconn :: int
  target_request_rate :: int
  target_request_count :: int
  target_global_request_count :: int
  target_total_nconn_count :: int
  running_period_sec :: int
  waiting_period_sec :: int
  ipv4_dst :: cfg_ipv4_array
  host_hdr :: "string option"
  port :: int
  uri :: "string option"
  wait_time_pre_http_req_msec :: int
  http_keepalive :: int

section \<open>The address array\<close>

definition cfg_ipv4_array_init :: cfg_ipv4_array where
  "cfg_ipv4_array_init = \<lparr>ipv4 = replicate 16 None, arr_n = 0, arr_cur = 0\<rparr>"

definition cfg_ipv4_array_add ::
  "bool \<Rightarrow> cfg_ipv4_array \<Rightarrow> string \<Rightarrow> (int \<times> cfg_ipv4_array) option" where
  "cfg_ipv4_array_add ok a addr =
     (if arr_n a \<ge> CFG_IPV4_ARRAY_MAX then Some (-1, a)
      else if arr_n a < 0 \<or> nat (arr_n a) \<ge> length (ipv4 a) then None
      else Some (0, a\<lparr>ipv4 := (ipv4 a)[nat (arr_n a) := strdup ok addr],
                      arr_n := c_int (arr_n a + 1)\<rparr>))"

fun dup_loop ::
  "(nat \<Rightarrow> bool) \<Rightarrow> string option list \<Rightarrow> nat list \<Rightarrow> string option list
     \<Rightarrow> string option list option" where
  "dup_loop ok src [] dst = Some dst"
| "dup_loop ok src (i # is) dst =
     (if i < length src \<and> i < length dst then
        (case src ! i of
           None \<Rightarrow> None
         | Some s \<Rightarrow> dup_loop ok src is (dst[i := strdup (ok i) s]))
      else None)"

definition cfg_ipv4_array_dup ::
  "(nat \<Rightarrow> bool) \<Rightarrow> cfg_ipv4_array \<Rightarrow> cfg_ipv4_array \<Rightarrow> cfg_ipv4_array option" where
  "cfg_ipv4_array_dup ok dst src =
     do { l \<leftarrow> dup_loop ok (ipv4 src) [0..<nat (arr_n src)] (ipv4 dst);
          Some (dst\<lparr>ipv4 := l, arr_n := arr_n src\<rparr>) }"

definition array_at :: "cfg_ipv4_array \<Rightarrow> int \<Rightarrow> string option option" where
  \<comment> \<open>the C expression \<open>r->ipv4[i]\<close>\<close>
  "array_at r i = (if 0 \<le> i \<and> nat i < length (ipv4 r) then Some (ipv4 r ! nat i) else None)"

definition cfg_ipv4_array_get_random ::
  "int \<Rightarrow> cfg_ipv4_array \<Rightarrow> string option option" where
  \<comment> \<open>the first argument is the value \<open>random()\<close> returns\<close>
  "cfg_ipv4_array_get_random rnd r =
     (if arr_n r = 1 then array_at r 0
      else if arr_n r = 0 then None
      else array_at r (rnd smod arr_n r))"

definition cfg_ipv4_array_get_next ::
  "cfg_ipv4_array \<Rightarrow> (string option \<times> cfg_ipv4_array) option" where
  "cfg_ipv4_array_get_next r =
     do { c \<leftarrow> array_at r (arr_cur r);
          if arr_n r = 0 then None
          else Some (c, r\<lparr>arr_cur := c_int (arr_cur r + 1) smod arr_n r\<rparr>) }"

definition cfg_ipv4_array_nentries :: "cfg_ipv4_array \<Rightarrow> int" where
  "cfg_ipv4_array_nentries r = arr_n r"

section \<open>Dividing the configuration between threads\<close>

definition mgr_config_zero :: mgr_config where
  \<comment> \<open>a block cleared by bzero or calloc\<close>
  "mgr_config_zero = \<lparr>num_threads = 0, burst_conn = 0, target_nconn = 0, target_request_rate = 0,
     target_request_count = 0, target_global_request_count = 0, target_total_nconn_count = 0,
     running_period_sec = 0, waiting_period_sec = 0, ipv4_dst = cfg_ipv4_array_init,
     host_hdr = None, port = 0, uri = None, wait_time_pre_http_req_msec = 0, http_keepalive = 0\<rparr>"

definition share :: "int \<Rightarrow> int \<Rightarrow> int" where
  \<comment> \<open>a limit that is divided only when it is set\<close>
  "share x nthreads = (if x > 0 then c_int (x sdiv nthreads) else x)"

definition mgr_config_copy_thread ::
  "(nat \<Rightarrow> bool) \<Rightarrow> mgr_config \<Rightarrow> mgr_config \<Rightarrow> int \<Rightarrow> (int \<times> mgr_config) option" where
  "mgr_config_copy_thread ok src_cfg cfg nthreads0 =
     (let nthreads = (if nthreads0 = 0 then 1 else nthreads0);
          cfg1 = cfg\<lparr>
            num_threads := num_threads src_cfg,
            burst_conn := c_int (burst_conn src_cfg sdiv nthreads),
            target_nconn := c_int (target_nconn src_cfg sdiv nthreads),
            target_request_count := target_request_count src_cfg,
            target_request_rate := share (target_request_rate src_cfg) nthreads,
            target_global_request_count := share (target_global_request_count src_cfg) nthreads,
            target_total_nconn_count := share (target_total_nconn_count src_cfg) nthreads,
            running_period_sec := running_period_sec src_cfg,
            waiting_period_sec := waiting_period_sec src_cfg\<rparr>
      in do {
        arr \<leftarrow> cfg_ipv4_array_dup (\<lambda>i. ok (i + 2)) (ipv4_dst cfg1) (ipv4_dst src_cfg);
        let hdr = (case host_hdr src_cfg of None \<Rightarrow> host_hdr cfg1 | Some h \<Rightarrow> strdup (ok 0) h);
        u \<leftarrow> uri src_cfg;
        Some (0, cfg1\<lparr>ipv4_dst := arr, host_hdr := hdr, port := port src_cfg,
                uri := strdup (ok 1) u,
                wait_time_pre_http_req_msec := wait_time_pre_http_req_msec src_cfg,
                http_keepalive := http_keepalive src_cfg\<rparr>) })"

section \<open>The invariant of the address array\<close>

definition array_wf :: "cfg_ipv4_array \<Rightarrow> bool" where
  "array_wf a \<longleftrightarrow> length (ipv4 a) = 16 \<and> 0 \<le> arr_n a \<and> arr_n a \<le> 16
     \<and> (\<forall>i < nat (arr_n a). ipv4 a ! i \<noteq> None)
     \<and> 0 \<le> arr_cur a \<and> (arr_cur a < arr_n a \<or> arr_cur a = 0)"

definition addrs :: "cfg_ipv4_array \<Rightarrow> string list" where
  \<comment> \<open>the abstraction of the array: the addresses in the order they were added\<close>
  "addrs a = map the (take (nat (arr_n a)) (ipv4 a))"

lemma length_addrs [simp]: "array_wf a \<Longrightarrow> length (addrs a) = nat (arr_n a)"
  by (auto simp: array_wf_def addrs_def)

lemma addrs_nth:
  "array_wf a \<Longrightarrow> i < nat (arr_n a) \<Longrightarrow> ipv4 a ! i = Some (addrs a ! i)"
  by (auto simp: array_wf_def addrs_def)

lemma array_wf_init [simp]: "array_wf cfg_ipv4_array_init" "addrs cfg_ipv4_array_init = []"
  by (simp_all add: array_wf_def cfg_ipv4_array_init_def addrs_def)

lemma add_spec:
  assumes "array_wf a"
  shows "cfg_ipv4_array_add True a s =
     (if length (addrs a) = 16 then Some (-1, a)
      else Some (0, a\<lparr>ipv4 := (ipv4 a)[nat (arr_n a) := Some s], arr_n := arr_n a + 1\<rparr>))"
  using assms
  by (auto simp: cfg_ipv4_array_add_def CFG_IPV4_ARRAY_MAX_def array_wf_def
      c_int_id in_int_def INT_MAX_def INT_MIN_def addrs_def)

lemma add_wf:
  assumes "array_wf a" "cfg_ipv4_array_add True a s = Some (0, a')"
  shows "array_wf a'" and "addrs a' = addrs a @ [s]"
proof -
  have n: "nat (arr_n a) < 16" "length (ipv4 a) = 16" "0 \<le> arr_n a"
    and a': "a' = a\<lparr>ipv4 := (ipv4 a)[nat (arr_n a) := Some s], arr_n := arr_n a + 1\<rparr>"
    using assms by (auto simp: add_spec array_wf_def addrs_def split: if_splits)
  have [simp]: "nat (arr_n a + 1) = Suc (nat (arr_n a))"
    using n by simp
  show "array_wf a'"
    using assms(1) n by (auto simp: array_wf_def a' nth_list_update less_Suc_eq)
  show "addrs a' = addrs a @ [s]"
    using n by (simp add: addrs_def a' take_Suc_conv_app_nth)
qed

section \<open>Round robin\<close>

text \<open>
  The interface the connection manager uses: a cursor over a non-empty list of
  members that moves to the next one on every call. The client lemma says which
  member the \<open>k\<close>-th call returns.
\<close>

locale round_robin =
  fixes get_next :: "'a \<Rightarrow> ('b \<times> 'a) option" and members :: "'a \<Rightarrow> 'b list"
    and cursor :: "'a \<Rightarrow> nat" and wf :: "'a \<Rightarrow> bool"
  assumes cursor_bound: "wf a \<Longrightarrow> members a \<noteq> [] \<Longrightarrow> cursor a < length (members a)"
    and next_step: "wf a \<Longrightarrow> members a \<noteq> [] \<Longrightarrow>
      \<exists>a'. get_next a = Some (members a ! cursor a, a') \<and> wf a' \<and> members a' = members a
         \<and> cursor a' = (cursor a + 1) mod length (members a)"
begin

fun get_many :: "nat \<Rightarrow> 'a \<Rightarrow> ('b list \<times> 'a) option" where
  "get_many 0 a = Some ([], a)"
| "get_many (Suc k) a =
     do { (x, a') \<leftarrow> get_next a; (xs, a'') \<leftarrow> get_many k a'; Some (x # xs, a'') }"

lemma get_many_spec:
  assumes "wf a" "members a \<noteq> []"
  shows "\<exists>a'. get_many k a =
      Some (map (\<lambda>i. members a ! ((cursor a + i) mod length (members a))) [0..<k], a')
     \<and> wf a' \<and> members a' = members a"
  using assms
proof (induction k arbitrary: a)
  case 0
  then show ?case by simp
next
  case (Suc k)
  obtain a1 where a1: "get_next a = Some (members a ! cursor a, a1)" "wf a1"
    "members a1 = members a" "cursor a1 = (cursor a + 1) mod length (members a)"
    using next_step [OF Suc.prems] by blast
  obtain a2 where a2: "get_many k a1 =
      Some (map (\<lambda>i. members a1 ! ((cursor a1 + i) mod length (members a1))) [0..<k], a2)"
    "wf a2" "members a2 = members a1"
    using Suc.IH [of a1] Suc.prems a1 by auto
  have "map (\<lambda>i. members a ! ((cursor a + i) mod length (members a))) [0..<Suc k]
      = members a ! cursor a
        # map (\<lambda>i. members a ! ((cursor a1 + i) mod length (members a))) [0..<k]"
    using cursor_bound [OF Suc.prems] a1(4)
    by (simp add: upt_conv_Cons map_Suc_upt [symmetric] mod_add_left_eq del: upt_Suc)
  with a1 a2 show ?case by simp
qed

lemma full_round:
  assumes "wf a" "members a \<noteq> []" "cursor a = 0"
  shows "\<exists>a'. get_many (length (members a)) a = Some (members a, a')"
proof -
  have "map (\<lambda>i. members a ! ((cursor a + i) mod length (members a))) [0..<length (members a)]
      = members a"
    using assms by (intro nth_equalityI) simp_all
  then show ?thesis
    using get_many_spec [OF assms(1,2), of "length (members a)"] by auto
qed

end

lemma get_next_spec:
  assumes "array_wf a" "addrs a \<noteq> []"
  shows "cfg_ipv4_array_get_next a =
     Some (Some (addrs a ! nat (arr_cur a)),
       a\<lparr>arr_cur := (arr_cur a + 1) mod arr_n a\<rparr>)"
proof -
  have n: "0 < arr_n a" "arr_cur a < arr_n a" "0 \<le> arr_cur a" "arr_n a \<le> 16"
    "length (ipv4 a) = 16"
    using assms by (auto simp: array_wf_def addrs_def)
  have "c_int (arr_cur a + 1) smod arr_n a = (arr_cur a + 1) mod arr_n a"
    using n by (simp add: c_int_id in_int_def INT_MAX_def INT_MIN_def smod_nonneg)
  moreover have "ipv4 a ! nat (arr_cur a) = Some (addrs a ! nat (arr_cur a))"
    using assms n by (intro addrs_nth) simp_all
  ultimately show ?thesis
    using n by (simp add: cfg_ipv4_array_get_next_def array_at_def)
qed

interpretation rr: round_robin cfg_ipv4_array_get_next "\<lambda>a. map Some (addrs a)"
  "\<lambda>a. nat (arr_cur a)" array_wf
proof unfold_locales
  fix a
  assume wf: "array_wf a" and ne: "map Some (addrs a) \<noteq> []"
  then have n: "0 < arr_n a" "arr_cur a < arr_n a" "0 \<le> arr_cur a"
    by (auto simp: array_wf_def addrs_def)
  show "nat (arr_cur a) < length (map Some (addrs a))"
    using wf n by simp
  let ?a' = "a\<lparr>arr_cur := (arr_cur a + 1) mod arr_n a\<rparr>"
  have "array_wf ?a'" using wf n by (simp add: array_wf_def)
  moreover have "nat ((arr_cur a + 1) mod arr_n a)
      = (nat (arr_cur a) + 1) mod length (map Some (addrs a))"
    using wf n by (simp add: nat_mod_distrib nat_add_distrib)
  moreover have "addrs ?a' = addrs a" by (simp add: addrs_def)
  ultimately show "\<exists>a'. cfg_ipv4_array_get_next a =
        Some (map Some (addrs a) ! nat (arr_cur a), a') \<and> array_wf a'
      \<and> map Some (addrs a') = map Some (addrs a)
      \<and> nat (arr_cur a') = (nat (arr_cur a) + 1) mod length (map Some (addrs a))"
    using get_next_spec [OF wf] ne wf n by auto
qed

section \<open>Copying\<close>

lemma dup_loop_spec:
  assumes "\<forall>i \<in> set is. i < length src \<and> src ! i \<noteq> None" "length src = length dst"
    "distinct is"
  shows "\<exists>l. dup_loop (\<lambda>_. True) src is dst = Some l \<and> length l = length dst
     \<and> (\<forall>i < length dst. l ! i = (if i \<in> set is then src ! i else dst ! i))"
  using assms
proof (induction "is" arbitrary: dst)
  case Nil
  then show ?case by simp
next
  case (Cons j js)
  then obtain s where s: "src ! j = Some s" "j < length src" by auto
  obtain l where "dup_loop (\<lambda>_. True) src js (dst[j := Some s]) = Some l"
    "length l = length dst"
    "\<forall>i < length dst. l ! i = (if i \<in> set js then src ! i else dst[j := Some s] ! i)"
    using Cons.IH [of "dst[j := Some s]"] Cons.prems by auto
  with s Cons.prems show ?case by (auto simp: nth_list_update)
qed

lemma array_dup_spec:
  assumes "array_wf src" "length (ipv4 dst) = 16" "arr_cur dst = 0"
  shows "\<exists>a. cfg_ipv4_array_dup (\<lambda>_. True) dst src = Some a \<and> array_wf a
     \<and> addrs a = addrs src \<and> arr_n a = arr_n src \<and> arr_cur a = 0"
proof -
  let ?n = "nat (arr_n src)"
  have src: "length (ipv4 src) = 16" "?n \<le> 16" "\<forall>i < ?n. ipv4 src ! i \<noteq> None"
    using assms(1) by (auto simp: array_wf_def)
  then obtain l where l: "dup_loop (\<lambda>_. True) (ipv4 src) [0..<?n] (ipv4 dst) = Some l"
    "length l = 16" "\<forall>i < 16. l ! i = (if i < ?n then ipv4 src ! i else ipv4 dst ! i)"
    using dup_loop_spec [of "[0..<?n]" "ipv4 src" "ipv4 dst"] assms(2) by auto
  have "take ?n l = take ?n (ipv4 src)"
    using l src by (intro nth_equalityI) auto
  then show ?thesis
    using assms l src by (auto simp: cfg_ipv4_array_dup_def array_wf_def addrs_def)
qed

lemma share_pos:
  "x > 0 \<Longrightarrow> in_int x \<Longrightarrow> n > 0 \<Longrightarrow> share x n = x div n"
  using in_int_div [of x n] by (simp add: share_def sdiv_nonneg c_int_id)

end
