(* ===== verification/Options.thy ===== *)
theory Options
  imports Numbers Config
begin

text \<open>
  The command lines: \<open>mgr_config_defaults\<close>, the option table and \<open>parse_opts\<close>
  of \<open>clt/main.c\<close>, and the same of \<open>srv/http.c\<close>. The input of a parser is the
  sequence of results of \<open>getopt_long\<close> before it returns -1: the value of the
  matched table entry (\<open>'?'\<close> when none matched) and \<open>optarg\<close>. The flags in
  \<open>ok\<close> say, by the position of the option, which \<open>strdup\<close> succeeds.
\<close>

section \<open>The client\<close>

definition mgr_config_defaults :: "mgr_config \<Rightarrow> mgr_config" where
  "mgr_config_defaults cfg = cfg\<lparr>host_hdr := None, port := -1, uri := None, num_threads := 1,
     target_request_rate := -1, target_nconn := 128, burst_conn := 1, target_request_count := -1,
     wait_time_pre_http_req_msec := 1, target_total_nconn_count := -1,
     target_global_request_count := -1, http_keepalive := 1, running_period_sec := 30,
     waiting_period_sec := 30\<rparr>"

datatype opt =
    OPT_HOST_IP | OPT_HOST_HDR | OPT_PORT | OPT_URI | OPT_TARGET_NCONN | OPT_BURST_CONN
  | OPT_TARGET_REQUEST_COUNT | OPT_WAIT_TIME_PRE_HTTP_REQ_MSEC | OPT_TARGET_TOTAL_NCONN_COUNT
  | OPT_TARGET_GLOBAL_REQUEST_COUNT | OPT_HTTP_KEEPALIVE | OPT_RUNNING_PERIOD
  | OPT_WAITING_PERIOD | OPT_NUMBER_THREADS | OPT_TARGET_REQUEST_RATE | OPT_h | OPT_unknown

definition longopts :: "(string \<times> bool \<times> opt) list" where
  \<comment> \<open>name, whether it takes an argument, value\<close>
  "longopts =
     [(''host-ip'', True, OPT_HOST_IP), (''host-hdr'', True, OPT_HOST_HDR),
      (''port'', True, OPT_PORT), (''uri'', True, OPT_URI),
      (''target-nconn'', True, OPT_TARGET_NCONN), (''burst-conn'', True, OPT_BURST_CONN),
      (''target-request-count'', True, OPT_TARGET_REQUEST_COUNT),
      (''wait-time-request-msec'', True, OPT_WAIT_TIME_PRE_HTTP_REQ_MSEC),
      (''target-total-nconn-count'', True, OPT_TARGET_TOTAL_NCONN_COUNT),
      (''target-global-request-count'', True, OPT_TARGET_GLOBAL_REQUEST_COUNT),
      (''http-keepalive'', True, OPT_HTTP_KEEPALIVE),
      (''running-period'', True, OPT_RUNNING_PERIOD),
      (''waiting-period'', True, OPT_WAITING_PERIOD),
      (''number-threads'', True, OPT_NUMBER_THREADS),
      (''target-request-rate'', True, OPT_TARGET_REQUEST_RATE), (''help'', False, OPT_h)]"

fun parse_opts ::
  "(nat \<Rightarrow> bool) \<Rightarrow> (opt \<times> string) list \<Rightarrow> mgr_config \<Rightarrow> (int \<times> mgr_config) option" where
  "parse_opts ok [] cfg = Some (0, cfg)"
| "parse_opts ok ((ch, optarg) # rest) cfg =
     (let next = parse_opts (\<lambda>i. ok (Suc i)) rest in
      case ch of
        OPT_h \<Rightarrow> Some (-1, cfg)
      | OPT_HOST_IP \<Rightarrow>
          do { (rc, arr) \<leftarrow> cfg_ipv4_array_add (ok 0) (ipv4_dst cfg) optarg;
               if rc \<noteq> 0 then Some (-1, cfg\<lparr>ipv4_dst := arr\<rparr>)
               else next (cfg\<lparr>ipv4_dst := arr\<rparr>) }
      | OPT_HOST_HDR \<Rightarrow> next (cfg\<lparr>host_hdr := strdup (ok 0) optarg\<rparr>)
      | OPT_PORT \<Rightarrow> next (cfg\<lparr>port := atoi optarg\<rparr>)
      | OPT_URI \<Rightarrow> next (cfg\<lparr>uri := strdup (ok 0) optarg\<rparr>)
      | OPT_TARGET_NCONN \<Rightarrow> next (cfg\<lparr>target_nconn := atoi optarg\<rparr>)
      | OPT_BURST_CONN \<Rightarrow> next (cfg\<lparr>burst_conn := atoi optarg\<rparr>)
      | OPT_TARGET_REQUEST_COUNT \<Rightarrow> next (cfg\<lparr>target_request_count := atoi optarg\<rparr>)
      | OPT_WAIT_TIME_PRE_HTTP_REQ_MSEC \<Rightarrow>
          next (cfg\<lparr>wait_time_pre_http_req_msec := atoi optarg\<rparr>)
      | OPT_TARGET_TOTAL_NCONN_COUNT \<Rightarrow> next (cfg\<lparr>target_total_nconn_count := atoi optarg\<rparr>)
      | OPT_HTTP_KEEPALIVE \<Rightarrow> next (cfg\<lparr>http_keepalive := atoi optarg\<rparr>)
      | OPT_RUNNING_PERIOD \<Rightarrow> next (cfg\<lparr>running_period_sec := atoi optarg\<rparr>)
      | OPT_WAITING_PERIOD \<Rightarrow> next (cfg\<lparr>waiting_period_sec := atoi optarg\<rparr>)
      | OPT_NUMBER_THREADS \<Rightarrow> next (cfg\<lparr>num_threads := atoi optarg\<rparr>)
      | OPT_TARGET_REQUEST_RATE \<Rightarrow> next (cfg\<lparr>target_request_rate := atoi optarg\<rparr>)
      | _ \<Rightarrow> Some (-1, cfg))"

section \<open>The server\<close>

record http_app =
  a_port :: int
  a_ncpu :: int

datatype srv_opt = SRV_OPT_PORT | SRV_OPT_NUMBER_THREADS | SRV_OPT_HELP | SRV_OPT_unknown

definition srv_longopts :: "(string \<times> bool \<times> srv_opt) list" where
  "srv_longopts = [(''listen-port'', True, SRV_OPT_PORT),
     (''number-threads'', True, SRV_OPT_NUMBER_THREADS), (''help'', False, SRV_OPT_HELP)]"

fun srv_parse_opts :: "(srv_opt \<times> string) list \<Rightarrow> http_app \<Rightarrow> int \<times> http_app" where
  "srv_parse_opts [] app = (0, app)"
| "srv_parse_opts ((ch, optarg) # rest) app =
     (case ch of
        SRV_OPT_PORT \<Rightarrow> srv_parse_opts rest (app\<lparr>a_port := atoi optarg\<rparr>)
      | SRV_OPT_NUMBER_THREADS \<Rightarrow> srv_parse_opts rest (app\<lparr>a_ncpu := atoi optarg\<rparr>)
      | _ \<Rightarrow> (-1, app))"

datatype srv_cb = Linecb | Sizecb

datatype srv_setup =
    Max_keepalive_requests int
  | Set_cb string srv_cb
  | Use_threads int
  | Bind_socket string int int

datatype srv_start = Srv_exit int | Srv_loop "srv_setup list"

definition srv_main :: "nat \<Rightarrow> (srv_opt \<times> string) list \<Rightarrow> srv_start" where
  \<comment> \<open>the exit status, or the calls that set up libevhtp before the event loop\<close>
  "srv_main argc args =
     (if argc < 2 then Srv_exit 127
      else case srv_parse_opts args \<lparr>a_port = 8080, a_ncpu = 1\<rparr> of
        (rc, app) \<Rightarrow>
          if rc < 0 then Srv_exit 127
          else Srv_loop [Max_keepalive_requests 0, Set_cb ''/line'' Linecb, Set_cb ''/size'' Sizecb,
            Use_threads (a_ncpu app), Bind_socket ''0.0.0.0'' (a_port app) 1024])"

section \<open>What parsing does\<close>

definition ints_ok :: "mgr_config \<Rightarrow> bool" where
  "ints_ok g \<longleftrightarrow> in_int (num_threads g) \<and> in_int (burst_conn g) \<and> in_int (target_nconn g)
     \<and> in_int (target_request_rate g) \<and> in_int (target_request_count g)
     \<and> in_int (target_global_request_count g) \<and> in_int (target_total_nconn_count g)
     \<and> in_int (running_period_sec g) \<and> in_int (waiting_period_sec g) \<and> in_int (port g)
     \<and> in_int (wait_time_pre_http_req_msec g) \<and> in_int (http_keepalive g)"

definition given :: "opt \<Rightarrow> (opt \<times> string) list \<Rightarrow> string list" where
  \<comment> \<open>the arguments an option was given with, in order\<close>
  "given k opts = map snd (filter (\<lambda>(c, _). c = k) opts)"

definition last_or :: "(string \<Rightarrow> 'a) \<Rightarrow> 'a \<Rightarrow> string list \<Rightarrow> 'a" where
  "last_or f d xs = (if xs = [] then d else f (last xs))"

definition accepted :: "opt \<Rightarrow> bool" where
  "accepted k \<longleftrightarrow> k \<notin> {OPT_h, OPT_unknown, OPT_TARGET_GLOBAL_REQUEST_COUNT}"

definition set_opt :: "opt \<Rightarrow> string \<Rightarrow> mgr_config \<Rightarrow> mgr_config" where
  \<comment> \<open>the field an option sets\<close>
  "set_opt k s g = (case k of
      OPT_HOST_HDR \<Rightarrow> g\<lparr>host_hdr := Some s\<rparr>
    | OPT_PORT \<Rightarrow> g\<lparr>port := atoi s\<rparr>
    | OPT_URI \<Rightarrow> g\<lparr>uri := Some s\<rparr>
    | OPT_TARGET_NCONN \<Rightarrow> g\<lparr>target_nconn := atoi s\<rparr>
    | OPT_BURST_CONN \<Rightarrow> g\<lparr>burst_conn := atoi s\<rparr>
    | OPT_TARGET_REQUEST_COUNT \<Rightarrow> g\<lparr>target_request_count := atoi s\<rparr>
    | OPT_WAIT_TIME_PRE_HTTP_REQ_MSEC \<Rightarrow> g\<lparr>wait_time_pre_http_req_msec := atoi s\<rparr>
    | OPT_TARGET_TOTAL_NCONN_COUNT \<Rightarrow> g\<lparr>target_total_nconn_count := atoi s\<rparr>
    | OPT_HTTP_KEEPALIVE \<Rightarrow> g\<lparr>http_keepalive := atoi s\<rparr>
    | OPT_RUNNING_PERIOD \<Rightarrow> g\<lparr>running_period_sec := atoi s\<rparr>
    | OPT_WAITING_PERIOD \<Rightarrow> g\<lparr>waiting_period_sec := atoi s\<rparr>
    | OPT_NUMBER_THREADS \<Rightarrow> g\<lparr>num_threads := atoi s\<rparr>
    | OPT_TARGET_REQUEST_RATE \<Rightarrow> g\<lparr>target_request_rate := atoi s\<rparr>
    | _ \<Rightarrow> g)"

definition opts_applied :: "mgr_config \<Rightarrow> (opt \<times> string) list \<Rightarrow> mgr_config \<Rightarrow> bool" where
  \<comment> \<open>the configuration \<open>g'\<close> is \<open>g\<close> with the options applied\<close>
  "opts_applied g opts g' \<longleftrightarrow> array_wf (ipv4_dst g')
    \<and> addrs (ipv4_dst g') = addrs (ipv4_dst g) @ given OPT_HOST_IP opts
    \<and> arr_cur (ipv4_dst g') = arr_cur (ipv4_dst g)
    \<and> uri g' = last_or Some (uri g) (given OPT_URI opts)
    \<and> host_hdr g' = last_or Some (host_hdr g) (given OPT_HOST_HDR opts)
    \<and> port g' = last_or atoi (port g) (given OPT_PORT opts)
    \<and> target_nconn g' = last_or atoi (target_nconn g) (given OPT_TARGET_NCONN opts)
    \<and> burst_conn g' = last_or atoi (burst_conn g) (given OPT_BURST_CONN opts)
    \<and> target_request_count g'
        = last_or atoi (target_request_count g) (given OPT_TARGET_REQUEST_COUNT opts)
    \<and> wait_time_pre_http_req_msec g'
        = last_or atoi (wait_time_pre_http_req_msec g) (given OPT_WAIT_TIME_PRE_HTTP_REQ_MSEC opts)
    \<and> target_total_nconn_count g'
        = last_or atoi (target_total_nconn_count g) (given OPT_TARGET_TOTAL_NCONN_COUNT opts)
    \<and> http_keepalive g' = last_or atoi (http_keepalive g) (given OPT_HTTP_KEEPALIVE opts)
    \<and> running_period_sec g' = last_or atoi (running_period_sec g) (given OPT_RUNNING_PERIOD opts)
    \<and> waiting_period_sec g' = last_or atoi (waiting_period_sec g) (given OPT_WAITING_PERIOD opts)
    \<and> num_threads g' = last_or atoi (num_threads g) (given OPT_NUMBER_THREADS opts)
    \<and> target_request_rate g'
        = last_or atoi (target_request_rate g) (given OPT_TARGET_REQUEST_RATE opts)
    \<and> target_global_request_count g' = target_global_request_count g"

lemma given_Cons [simp]:
  "given k ((c, s) # xs) = (if c = k then s # given k xs else given k xs)" "given k [] = []"
  by (simp_all add: given_def)

lemma last_or_Cons [simp]: "last_or f d (x # xs) = last_or f (f x) xs" "last_or f d [] = d"
  by (simp_all add: last_or_def)

lemma add_full:
  assumes "array_wf a" "length (addrs a) = 16"
  shows "cfg_ipv4_array_add True a s = Some (-1, a)"
  using add_spec [OF assms(1)] assms(2) by simp

lemma add_room:
  assumes "array_wf a" "length (addrs a) < 16"
  obtains a' where "cfg_ipv4_array_add True a s = Some (0, a')" "array_wf a'"
    "addrs a' = addrs a @ [s]" "arr_cur a' = arr_cur a"
proof -
  let ?a = "a\<lparr>ipv4 := (ipv4 a)[nat (arr_n a) := Some s], arr_n := arr_n a + 1\<rparr>"
  have e: "cfg_ipv4_array_add True a s = Some (0, ?a)" using add_spec [OF assms(1)] assms(2) by simp
  then show thesis using that add_wf [OF assms(1) e] by simp
qed

lemma array_le: "array_wf a \<Longrightarrow> length (addrs a) \<le> 16"
  by (simp add: array_wf_def nat_le_iff)

lemma parse_step:
  "c \<noteq> OPT_HOST_IP \<Longrightarrow> accepted c \<Longrightarrow>
   parse_opts (\<lambda>_. True) ((c, s) # opts) g = parse_opts (\<lambda>_. True) opts (set_opt c s g)"
  "c \<noteq> OPT_HOST_IP \<Longrightarrow> ipv4_dst (set_opt c s g) = ipv4_dst g"
  "c \<noteq> OPT_HOST_IP \<Longrightarrow> opts_applied (set_opt c s g) opts g' \<Longrightarrow> opts_applied g ((c, s) # opts) g'"
  by (cases c; simp add: accepted_def set_opt_def opts_applied_def)+

lemma parse_reject: "\<not> accepted c \<Longrightarrow> parse_opts (\<lambda>_. True) ((c, s) # opts) g = Some (-1, g)"
  by (auto simp: accepted_def)

text \<open>Parsing ends with 0 exactly when every option is one of the accepted ones and
  the addresses fit into the array.\<close>

lemma parse_opts_result:
  assumes "array_wf (ipv4_dst g)"
  shows "\<exists>rc g'. parse_opts (\<lambda>_. True) opts g = Some (rc, g') \<and> (rc = 0 \<or> rc = -1)
    \<and> (rc = 0 \<longleftrightarrow> list_all (\<lambda>(c, _). accepted c) opts
          \<and> length (addrs (ipv4_dst g)) + length (given OPT_HOST_IP opts) \<le> 16)"
  using assms
proof (induction opts arbitrary: g)
  case Nil
  then show ?case using array_le by simp
next
  case (Cons p opts)
  obtain c s where p: "p = (c, s)" by (cases p)
  show ?case
  proof (cases "c = OPT_HOST_IP")
    case True
    show ?thesis
    proof (cases "length (addrs (ipv4_dst g)) < 16")
      case lt: True
      obtain a where "cfg_ipv4_array_add True (ipv4_dst g) s = Some (0, a)" "array_wf a"
        "addrs a = addrs (ipv4_dst g) @ [s]"
        by (rule add_room [OF Cons.prems lt])
      then show ?thesis using Cons.IH [of "g\<lparr>ipv4_dst := a\<rparr>"] True p by (simp add: accepted_def)
    next
      case False
      then show ?thesis using add_full [OF Cons.prems] array_le [OF Cons.prems] True p by simp
    qed
  next
    case False
    show ?thesis
    proof (cases "accepted c")
      case True
      then show ?thesis
        using Cons.IH [of "set_opt c s g"] Cons.prems p False
          parse_step(1) [OF False True, of s opts g] parse_step(2) [OF False, of s g]
        by (simp del: parse_opts.simps)
    next
      case rej: False
      then show ?thesis using parse_reject [OF rej, of s opts g] p by simp
    qed
  qed
qed

lemma parse_opts_fields:
  assumes "array_wf (ipv4_dst g)" "parse_opts (\<lambda>_. True) opts g = Some (0, g')"
  shows "opts_applied g opts g'"
  using assms
proof (induction opts arbitrary: g)
  case Nil
  then show ?case by (simp add: opts_applied_def)
next
  case (Cons p opts)
  obtain c s where p: "p = (c, s)" by (cases p)
  show ?case
  proof (cases "c = OPT_HOST_IP")
    case True
    have "length (addrs (ipv4_dst g)) < 16"
      using add_full [OF Cons.prems(1)] array_le [OF Cons.prems(1)] Cons.prems(2) True p
      by (cases "length (addrs (ipv4_dst g)) = 16") auto
    then obtain a where "cfg_ipv4_array_add True (ipv4_dst g) s = Some (0, a)" "array_wf a"
      "addrs a = addrs (ipv4_dst g) @ [s]" "arr_cur a = arr_cur (ipv4_dst g)"
      by (rule add_room [OF Cons.prems(1)])
    then show ?thesis using Cons.IH [of "g\<lparr>ipv4_dst := a\<rparr>"] Cons.prems(2) True p
      by (simp add: opts_applied_def)
  next
    case False
    have acc: "accepted c" using parse_reject [of c s opts g] Cons.prems(2) p by force
    have "opts_applied (set_opt c s g) opts g'"
      using Cons.IH [of "set_opt c s g"] Cons.prems p parse_step(1) [OF False acc, of s opts g]
        parse_step(2) [OF False, of s g]
      by (simp del: parse_opts.simps)
    then show ?thesis using parse_step(3) [OF False] p by simp
  qed
qed

lemma last_or_in_int: "in_int d \<Longrightarrow> in_int (last_or atoi d xs)"
  by (simp add: last_or_def atoi_range)

end
