(* ===== verification/Library_Calls.thy ===== *)
theory Library_Calls
  imports Prelude
begin

text \<open>
  The client runs on libevent and libevhtp, whose code is not part of the
  repository. The model does not define what they do: every call the client
  makes is recorded, newest first, in a log, and everything the client may rely
  on is read off that log: which events, connections and requests are
  allocated, which events are pending, which hooks are installed and which
  request hangs on a connection. Entries that start with \<open>Lib_\<close> and
  \<open>Fired\<close> are put there by the environment: the library ran the callback of
  an event, or released an object on its own account.

  \<open>legal\<close> is the usage rule of the two libraries on such a log: nothing is
  used or released after it was released, a request is started only on a
  connection that has none, and a request is released only when no live
  connection still points to it (the double free the comment in
  \<open>clt_conn_destroy\<close> is about).
\<close>

datatype ev =
    Ev_http_req addr | Ev_conn_destroy addr | Ev_timeout addr
  | T_timer | T_stat | T_running | T_wait | T_cleanup

datatype hook =
    on_error | on_request_fini | on_new_chunk | on_chunk_complete
  | on_chunks_complete | on_headers_start

datatype libcall =
    Event_new ev
  | Event_add ev "timeval option"
  | Event_active ev
  | Event_del ev
  | Event_free ev
  | Fired ev
  | Connection_new addr
  | Connection_set_hook addr addr
  | Connection_set_timeouts addr timeval timeval
  | Connection_unset_hooks addr
  | Connection_access addr
  | Connection_clear_request addr
  | Connection_free addr
  | Lib_connection_freed addr
  | Request_new addr addr
  | Request_set_hook addr hook addr
  | Request_unset_hooks addr
  | Request_add_header addr string string
  | Request_access addr
  | Request_drain addr u64
  | Make_request addr addr string
  | Request_free addr
  | Lib_request_freed addr

type_synonym log = "libcall list"

section \<open>What the log says about events\<close>

primrec ev_live :: "log \<Rightarrow> ev \<Rightarrow> bool" where
  "ev_live [] e = False"
| "ev_live (c # l) e = (case c of
      Event_new e' \<Rightarrow> e' = e \<or> ev_live l e
    | Event_free e' \<Rightarrow> e' \<noteq> e \<and> ev_live l e
    | _ \<Rightarrow> ev_live l e)"

primrec ev_pending :: "log \<Rightarrow> ev \<Rightarrow> bool" where
  "ev_pending [] e = False"
| "ev_pending (c # l) e = (case c of
      Event_new e' \<Rightarrow> e' \<noteq> e \<and> ev_pending l e
    | Event_add e' tv \<Rightarrow> e' = e \<or> ev_pending l e
    | Event_active e' \<Rightarrow> e' = e \<or> ev_pending l e
    | Event_del e' \<Rightarrow> e' \<noteq> e \<and> ev_pending l e
    | Event_free e' \<Rightarrow> e' \<noteq> e \<and> ev_pending l e
    | Fired e' \<Rightarrow> e' \<noteq> e \<and> ev_pending l e
    | _ \<Rightarrow> ev_pending l e)"

section \<open>What the log says about connections and requests\<close>

primrec con_live :: "log \<Rightarrow> addr \<Rightarrow> bool" where
  "con_live [] k = False"
| "con_live (c # l) k = (case c of
      Connection_new k' \<Rightarrow> k' = k \<or> con_live l k
    | Connection_free k' \<Rightarrow> k' \<noteq> k \<and> con_live l k
    | Lib_connection_freed k' \<Rightarrow> k' \<noteq> k \<and> con_live l k
    | _ \<Rightarrow> con_live l k)"

primrec con_hook :: "log \<Rightarrow> addr \<Rightarrow> addr option" where
  \<comment> \<open>the argument of the connection's fini hook, when it is installed\<close>
  "con_hook [] k = None"
| "con_hook (c # l) k = (case c of
      Connection_new k' \<Rightarrow> (if k' = k then None else con_hook l k)
    | Connection_set_hook k' r \<Rightarrow> (if k' = k then Some r else con_hook l k)
    | Connection_unset_hooks k' \<Rightarrow> (if k' = k then None else con_hook l k)
    | _ \<Rightarrow> con_hook l k)"

primrec con_request :: "log \<Rightarrow> addr \<Rightarrow> addr option" where
  \<comment> \<open>the field \<open>con->request\<close>\<close>
  "con_request [] k = None"
| "con_request (c # l) k = (case c of
      Connection_new k' \<Rightarrow> (if k' = k then None else con_request l k)
    | Make_request k' q u \<Rightarrow> (if k' = k then Some q else con_request l k)
    | Connection_clear_request k' \<Rightarrow> (if k' = k then None else con_request l k)
    | Lib_request_freed q \<Rightarrow> (if con_request l k = Some q then None else con_request l k)
    | _ \<Rightarrow> con_request l k)"

primrec req_con :: "log \<Rightarrow> addr \<Rightarrow> addr option" where
  \<comment> \<open>the connection whose \<open>request\<close> field points to the request\<close>
  "req_con [] q = None"
| "req_con (c # l) q = (case c of
      Request_new q' r \<Rightarrow> (if q' = q then None else req_con l q)
    | Make_request k q' u \<Rightarrow> (if q' = q then Some k
        else if req_con l q = Some k then None else req_con l q)
    | Connection_clear_request k \<Rightarrow> (if req_con l q = Some k then None else req_con l q)
    | _ \<Rightarrow> req_con l q)"

primrec req_live :: "log \<Rightarrow> addr \<Rightarrow> bool" where
  \<comment> \<open>a connection takes the request that hangs on it along\<close>
  "req_live [] q = False"
| "req_live (c # l) q = (case c of
      Request_new q' r \<Rightarrow> q' = q \<or> req_live l q
    | Request_free q' \<Rightarrow> q' \<noteq> q \<and> req_live l q
    | Lib_request_freed q' \<Rightarrow> q' \<noteq> q \<and> req_live l q
    | Connection_free k \<Rightarrow> con_request l k \<noteq> Some q \<and> req_live l q
    | Lib_connection_freed k \<Rightarrow> con_request l k \<noteq> Some q \<and> req_live l q
    | _ \<Rightarrow> req_live l q)"

primrec req_hook :: "log \<Rightarrow> addr \<Rightarrow> hook \<Rightarrow> addr option" where
  "req_hook [] q h = None"
| "req_hook (c # l) q h = (case c of
      Request_new q' r \<Rightarrow> (if q' = q then None else req_hook l q h)
    | Request_set_hook q' h' r \<Rightarrow> (if q' = q \<and> h' = h then Some r else req_hook l q h)
    | Request_unset_hooks q' \<Rightarrow> (if q' = q then None else req_hook l q h)
    | _ \<Rightarrow> req_hook l q h)"

primrec req_arg :: "log \<Rightarrow> addr \<Rightarrow> addr option" where
  \<comment> \<open>the argument of the completion callback of a request\<close>
  "req_arg [] q = None"
| "req_arg (c # l) q = (case c of
      Request_new q' r \<Rightarrow> (if q' = q then Some r else req_arg l q)
    | _ \<Rightarrow> req_arg l q)"

section \<open>Legal use\<close>

fun legal_call :: "log \<Rightarrow> libcall \<Rightarrow> bool" where
  "legal_call l (Event_new e) = (\<not> ev_live l e)"
| "legal_call l (Event_add e tv) = ev_live l e"
| "legal_call l (Event_active e) = ev_live l e"
| "legal_call l (Event_del e) = ev_live l e"
| "legal_call l (Event_free e) = ev_live l e"
| "legal_call l (Fired e) = (ev_live l e \<and> ev_pending l e)"
| "legal_call l (Connection_new k) = (\<not> con_live l k)"
| "legal_call l (Connection_set_hook k r) = con_live l k"
| "legal_call l (Connection_set_timeouts k t1 t2) = con_live l k"
| "legal_call l (Connection_unset_hooks k) = con_live l k"
| "legal_call l (Connection_access k) = con_live l k"
| "legal_call l (Connection_clear_request k) = con_live l k"
| "legal_call l (Connection_free k) =
     (con_live l k \<and> (case con_request l k of None \<Rightarrow> True | Some q \<Rightarrow> req_live l q))"
| "legal_call l (Lib_connection_freed k) =
     (con_live l k \<and> (case con_request l k of None \<Rightarrow> True | Some q \<Rightarrow> req_live l q))"
| "legal_call l (Request_new q r) = (\<not> req_live l q)"
| "legal_call l (Request_set_hook q h r) = req_live l q"
| "legal_call l (Request_unset_hooks q) = req_live l q"
| "legal_call l (Request_add_header q n v) = req_live l q"
| "legal_call l (Request_access q) = req_live l q"
| "legal_call l (Request_drain q n) = req_live l q"
| "legal_call l (Make_request k q u) =
     (con_live l k \<and> req_live l q \<and> con_request l k = None)"
| "legal_call l (Request_free q) =
     (req_live l q \<and> (case req_con l q of None \<Rightarrow> True | Some k \<Rightarrow> \<not> con_live l k))"
| "legal_call l (Lib_request_freed q) = req_live l q"

primrec legal :: "log \<Rightarrow> bool" where
  "legal [] = True"
| "legal (c # l) = (legal_call l c \<and> legal l)"

end
