(* ===== verification/Stats.thy ===== *)
theory Stats
  imports Prelude
begin

text \<open>
  \<open>clt/mgr_stats.h\<close> and \<open>clt/mgr_stats.c\<close>: the statistics block of a client
  manager, its copy, difference and accumulation. \<open>nconn\<close> is an \<open>int\<close>
  gauge, the rest are 64-bit counters; all of them wrap.
\<close>

record mgr_stats =
  nconn :: int
  nconn_create_failed :: u64
  conn_count :: u64
  conn_closing_count :: u64
  req_count :: u64
  req_count_ok :: u64
  req_count_err :: u64
  req_count_create_err :: u64
  req_count_timeout :: u64
  req_statustype_200 :: u64
  req_statustype_302 :: u64
  req_statustype_other :: u64

definition mgr_stats_zero :: mgr_stats where
  \<comment> \<open>a block cleared by bzero or calloc\<close>
  "mgr_stats_zero = \<lparr>nconn = 0, nconn_create_failed = 0, conn_count = 0,
     conn_closing_count = 0, req_count = 0, req_count_ok = 0, req_count_err = 0,
     req_count_create_err = 0, req_count_timeout = 0, req_statustype_200 = 0,
     req_statustype_302 = 0, req_statustype_other = 0\<rparr>"

definition mgr_stats_copy :: "mgr_stats \<Rightarrow> mgr_stats \<Rightarrow> mgr_stats" where
  "mgr_stats_copy src dst = src"

definition mgr_stats_diff :: "mgr_stats \<Rightarrow> mgr_stats \<Rightarrow> mgr_stats \<Rightarrow> mgr_stats" where
  "mgr_stats_diff sfrom sto res = res\<lparr>
     nconn := c_int (nconn sto - nconn sfrom),
     nconn_create_failed := nconn_create_failed sto - nconn_create_failed sfrom,
     conn_count := conn_count sto - conn_count sfrom,
     conn_closing_count := conn_closing_count sto - conn_closing_count sfrom,
     req_count := req_count sto - req_count sfrom,
     req_count_ok := req_count_ok sto - req_count_ok sfrom,
     req_count_err := req_count_err sto - req_count_err sfrom,
     req_count_create_err := req_count_create_err sto - req_count_create_err sfrom,
     req_count_timeout := req_count_timeout sto - req_count_timeout sfrom,
     req_statustype_200 := req_statustype_200 sto - req_statustype_200 sfrom,
     req_statustype_302 := req_statustype_302 sto - req_statustype_302 sfrom,
     req_statustype_other := req_statustype_other sto - req_statustype_other sfrom\<rparr>"

definition mgr_stats_add :: "mgr_stats \<Rightarrow> mgr_stats \<Rightarrow> mgr_stats" where
  "mgr_stats_add sfrom sto = sto\<lparr>
     nconn := c_int (nconn sto + nconn sfrom),
     nconn_create_failed := nconn_create_failed sto + nconn_create_failed sfrom,
     conn_count := conn_count sto + conn_count sfrom,
     conn_closing_count := conn_closing_count sto + conn_closing_count sfrom,
     req_count := req_count sto + req_count sfrom,
     req_count_ok := req_count_ok sto + req_count_ok sfrom,
     req_count_err := req_count_err sto + req_count_err sfrom,
     req_count_create_err := req_count_create_err sto + req_count_create_err sfrom,
     req_count_timeout := req_count_timeout sto + req_count_timeout sfrom,
     req_statustype_200 := req_statustype_200 sto + req_statustype_200 sfrom,
     req_statustype_302 := req_statustype_302 sto + req_statustype_302 sfrom,
     req_statustype_other := req_statustype_other sto + req_statustype_other sfrom\<rparr>"

definition stats_wf :: "mgr_stats \<Rightarrow> bool" where
  "stats_wf s \<longleftrightarrow> in_int (nconn s)"

lemmas stats_defs = mgr_stats_zero_def mgr_stats_copy_def mgr_stats_diff_def mgr_stats_add_def
  stats_wf_def

lemma mgr_stats_eqI:
  fixes s t :: mgr_stats
  assumes "nconn s = nconn t" "nconn_create_failed s = nconn_create_failed t"
    "conn_count s = conn_count t" "conn_closing_count s = conn_closing_count t"
    "req_count s = req_count t" "req_count_ok s = req_count_ok t"
    "req_count_err s = req_count_err t" "req_count_create_err s = req_count_create_err t"
    "req_count_timeout s = req_count_timeout t" "req_statustype_200 s = req_statustype_200 t"
    "req_statustype_302 s = req_statustype_302 t"
    "req_statustype_other s = req_statustype_other t"
  shows "s = t"
  using assms by simp

section \<open>The algebra of statistics blocks\<close>

text \<open>
  What the reporting code relies on: accumulation is associative and
  commutative with the cleared block as its unit, and a difference added back
  onto its start gives its end, also when counters have wrapped between the
  two. The clients of the locale are the per-thread and the global reporting
  loops of \<open>clt/main.c\<close>.
\<close>

locale counter_block =
  fixes add :: "'s \<Rightarrow> 's \<Rightarrow> 's" and diff :: "'s \<Rightarrow> 's \<Rightarrow> 's" and zero :: 's
    and wf :: "'s \<Rightarrow> bool"
  assumes wf_zero: "wf zero"
    and wf_add: "wf (add a b)"
    and wf_diff: "wf (diff a b)"
    and add_assoc: "add (add a b) c = add a (add b c)"
    and add_comm: "add a b = add b a"
    and add_zero: "wf a \<Longrightarrow> add a zero = a"
    and diff_add: "wf b \<Longrightarrow> add (diff a b) a = b"
begin

definition total :: "'s list \<Rightarrow> 's" where
  "total xs = foldr add xs zero"

fun diffs :: "'s \<Rightarrow> 's list \<Rightarrow> 's list" where
  "diffs p [] = []"
| "diffs p (x # xs) = diff p x # diffs x xs"

lemma wf_total: "wf (total xs)"
  by (cases xs) (simp_all add: total_def wf_zero wf_add)

lemma total_append: "total (xs @ ys) = add (total xs) (total ys)"
proof (induction xs)
  case Nil
  have "add (total ys) zero = total ys" by (rule add_zero [OF wf_total])
  then show ?case by (simp add: total_def add_comm)
next
  case (Cons x xs)
  then show ?case by (simp add: total_def add_assoc)
qed

lemma telescope:
  "list_all wf xs \<Longrightarrow> wf p \<Longrightarrow> add (total (diffs p xs)) p = last (p # xs)"
proof (induction xs arbitrary: p)
  case Nil
  then show ?case by (simp add: total_def add_comm add_zero)
next
  case (Cons x xs)
  have "add (total (diffs p (x # xs))) p = add (total (diffs x xs)) (add (diff p x) p)"
    by (simp add: total_def) (metis add_assoc add_comm)
  also have "\<dots> = add (total (diffs x xs)) x"
    using Cons.prems by (simp add: diff_add)
  finally show ?case using Cons by simp
qed

lemma diffs_snoc: "diffs p (xs @ [x]) = diffs p xs @ [diff (last (p # xs)) x]"
  by (induction xs arbitrary: p) auto

end

lemma stats_add_assoc: "mgr_stats_add (mgr_stats_add a b) c = mgr_stats_add a (mgr_stats_add b c)"
  by (rule mgr_stats_eqI) (simp_all add: stats_defs ac_simps)

lemma stats_add_comm: "mgr_stats_add a b = mgr_stats_add b a"
  by (rule mgr_stats_eqI) (simp_all add: stats_defs ac_simps)

lemma stats_diff_add: "stats_wf b \<Longrightarrow> mgr_stats_add (mgr_stats_diff a b r) a = b"
  by (rule mgr_stats_eqI) (simp_all add: stats_defs c_int_id)

interpretation st: counter_block mgr_stats_add
  "\<lambda>a b. mgr_stats_diff a b mgr_stats_zero" mgr_stats_zero stats_wf
proof unfold_locales
  show "mgr_stats_add (mgr_stats_add a b) c = mgr_stats_add a (mgr_stats_add b c)" for a b c
    by (rule stats_add_assoc)
  show "mgr_stats_add a b = mgr_stats_add b a" for a b
    by (rule stats_add_comm)
  show "stats_wf b \<Longrightarrow> mgr_stats_add (mgr_stats_diff a b mgr_stats_zero) a = b" for a b
    by (rule stats_diff_add)
  show "stats_wf a \<Longrightarrow> mgr_stats_add a mgr_stats_zero = a" for a
    by (rule mgr_stats_eqI) (simp_all add: stats_defs c_int_id)
qed (simp_all add: stats_defs in_int_def INT_MIN_def INT_MAX_def
     in_int_c_int [unfolded in_int_def INT_MIN_def INT_MAX_def])

end
