(* ===== verification/State.thy ===== *)
theory State
  imports Library_Calls Stats Config
begin

text \<open>
  The data of the client: the structures of \<open>clt/clt.h\<close> and \<open>clt/mgr.h\<close> and
  the address space of one worker thread.

  Heap objects are kept in partial maps from addresses; \<open>free\<close> removes an
  address, so a dangling access finds nothing and has no defined result.
  Addresses come from a counter and are not reused. \<open>clt_world\<close> holds what
  \<open>clt.c\<close> works on; \<open>world\<close> extends it by the manager, so that \<open>clt.c\<close> is
  modelled without knowing about \<open>mgr.c\<close>, as in the sources. The back
  pointers to the worker thread are constants of a world and left out.
\<close>

section \<open>clt.h\<close>

datatype clt_notify_cmd =
    CLT_NOTIFY_NONE
  | CLT_NOTIFY_CONNECTED
  | CLT_NOTIFY_CONNECT_ERROR
  | CLT_NOTIFY_REQUEST_START
  | CLT_NOTIFY_REQUEST_DONE_OK
  | CLT_NOTIFY_REQUEST_DONE_ERROR
  | CLT_NOTIFY_REQUEST_TIMEOUT
  | CLT_NOTIFY_CONN_CLOSING
  | CLT_NOTIFY_CONN_DESTROYING
  | CLT_NOTIFY_REQ_DESTROYING

record client_req =
  r_con :: "addr option"
  r_req :: "addr option"
  r_ev_timeout :: "ev option"
  r_host_ip :: "string option"
  r_host_hdr :: "string option"
  r_port :: int
  r_uri :: "string option"
  r_is_keepalive :: int
  r_nreq :: int
  r_cur_read_ptr :: u64
  r_cb :: bool
  r_cbdata :: addr

definition client_req_zero :: client_req where
  \<comment> \<open>a block from calloc\<close>
  "client_req_zero = \<lparr>r_con = None, r_req = None, r_ev_timeout = None, r_host_ip = None,
     r_host_hdr = None, r_port = 0, r_uri = None, r_is_keepalive = 0, r_nreq = 0,
     r_cur_read_ptr = 0, r_cb = False, r_cbdata = 0\<rparr>"

record clt_world =
  creqs :: "addr \<Rightarrow> client_req option"
  calls :: log
  next_addr :: addr

type_synonym 'w notify_cb = "addr \<Rightarrow> clt_notify_cmd \<Rightarrow> int \<Rightarrow> addr \<Rightarrow> 'w \<Rightarrow> 'w option"

section \<open>mgr.h\<close>

datatype clt_mgr_state =
    CLT_MGR_STATE_NONE
  | CLT_MGR_STATE_INIT
  | CLT_MGR_STATE_RUNNING
  | CLT_MGR_STATE_WAITING
  | CLT_MGR_STATE_CLEANUP
  | CLT_MGR_STATE_CLEANUP_WAITING
  | CLT_MGR_STATE_COMPLETED

record clt_mgr =
  mgr_state :: clt_mgr_state
  mgr_conn_list :: "addr list"
  t_timerev :: "ev option"
  t_stat_timerev :: "ev option"
  t_running_timerev :: "ev option"
  t_wait_timerev :: "ev option"
  t_cleanup_timerev :: "ev option"
  cfg :: mgr_config
  request_rate_error :: int
  request_count_cur :: int
  request_count_target :: int
  stats :: mgr_stats

record clt_mgr_conn =
  is_dead :: int
  c_target_request_count :: int
  c_wait_time_pre_http_req_msec :: int
  cur_req_count :: int
  c_req :: "addr option"
  ev_new_http_req :: "ev option"
  ev_conn_destroy :: "ev option"
  pending_http_req :: int

definition clt_mgr_conn_zero :: clt_mgr_conn where
  "clt_mgr_conn_zero = \<lparr>is_dead = 0, c_target_request_count = 0,
     c_wait_time_pre_http_req_msec = 0, cur_req_count = 0, c_req = None,
     ev_new_http_req = None, ev_conn_destroy = None, pending_http_req = 0\<rparr>"

record world = clt_world +
  mgr :: clt_mgr
  conns :: "addr \<Rightarrow> clt_mgr_conn option"
  prev_stats :: mgr_stats

section \<open>Allocation, the log, and event handles\<close>

text \<open>
  The environment decides which allocations succeed (by the place in the code
  and the number of the allocation) and whether \<open>evhtp_connection_free\<close> runs
  the fini hook of the connection.
\<close>

datatype site =
    Calloc_conn | Calloc_req | Strdup_host_ip | Strdup_host_hdr | Evhtp_connection_new
  | Event_new_site | Strdup_uri | Evhtp_request_new

record env =
  env_ok :: "site \<Rightarrow> nat \<Rightarrow> bool"
  env_fini_hook :: "addr \<Rightarrow> bool"

definition emit :: "libcall \<Rightarrow> 'a clt_world_scheme \<Rightarrow> 'a clt_world_scheme" where
  "emit c w = w\<lparr>calls := c # calls w\<rparr>"

definition alloc :: "env \<Rightarrow> site \<Rightarrow> 'a clt_world_scheme \<Rightarrow> addr option \<times> 'a clt_world_scheme" where
  "alloc env s w = (if env_ok env s (next_addr w) then Some (next_addr w) else None,
     w\<lparr>next_addr := Suc (next_addr w)\<rparr>)"

definition event_new :: "env \<Rightarrow> ev \<Rightarrow> 'a clt_world_scheme \<Rightarrow> ev option \<times> 'a clt_world_scheme" where
  "event_new env e w = (case alloc env Event_new_site w of
      (None, w) \<Rightarrow> (None, w)
    | (Some _, w) \<Rightarrow> (Some e, emit (Event_new e) w))"

definition event_add ::
  "ev option \<Rightarrow> timeval option \<Rightarrow> 'a clt_world_scheme \<Rightarrow> 'a clt_world_scheme option" where
  "event_add h tv w = do { e \<leftarrow> h; Some (emit (Event_add e tv) w) }"

definition event_active :: "ev option \<Rightarrow> 'a clt_world_scheme \<Rightarrow> 'a clt_world_scheme option" where
  "event_active h w = do { e \<leftarrow> h; Some (emit (Event_active e) w) }"

definition event_del :: "ev option \<Rightarrow> 'a clt_world_scheme \<Rightarrow> 'a clt_world_scheme option" where
  "event_del h w = do { e \<leftarrow> h; Some (emit (Event_del e) w) }"

definition event_free :: "ev option \<Rightarrow> 'a clt_world_scheme \<Rightarrow> 'a clt_world_scheme option" where
  "event_free h w = do { e \<leftarrow> h; Some (emit (Event_free e) w) }"

lemma emit_sel [simp]:
  "calls (emit c w) = c # calls w" "creqs (emit c w) = creqs w"
  "next_addr (emit c w) = next_addr w"
  by (simp_all add: emit_def)

lemma emit_more [simp]:
  "mgr (emit c w) = mgr w" "conns (emit c w) = conns w" "prev_stats (emit c w) = prev_stats w"
  by (simp_all add: emit_def)

lemma event_ops_Some [simp]:
  "event_add (Some e) tv w = Some (emit (Event_add e tv) w)"
  "event_active (Some e) w = Some (emit (Event_active e) w)"
  "event_del (Some e) w = Some (emit (Event_del e) w)"
  "event_free (Some e) w = Some (emit (Event_free e) w)"
  by (simp_all add: event_add_def event_active_def event_del_def event_free_def)

lemma event_ops_None [simp]:
  "event_add None tv w = None" "event_active None w = None"
  "event_del None w = None" "event_free None w = None"
  by (simp_all add: event_add_def event_active_def event_del_def event_free_def)

end
