(* ===== verification/Pacer.thy ===== *)
theory Pacer
  imports State
begin

text \<open>
  The request rate pacer of \<open>clt/mgr.c\<close>: every 10 ms the manager computes how
  many requests it may start in the next interval; every start of a request
  asks the pacer first and is counted. All of it is \<open>int\<close> arithmetic in
  thousandths of a request.
\<close>

definition REQRATE_INT :: int where "REQRATE_INT = 100"
definition REQRATE_FIXED_MULT :: int where "REQRATE_FIXED_MULT = 1000"

definition clamp_error :: "int \<Rightarrow> int \<Rightarrow> int" where
  "clamp_error t err = (if err > t then t else if err < c_int (- t) then c_int (- t) else err)"

definition clt_mgr_reqrate_pacer_update :: "clt_mgr \<Rightarrow> clt_mgr" where
  "clt_mgr_reqrate_pacer_update m0 =
     (let m = m0\<lparr>request_count_target := 0\<rparr>;
          rate = target_request_rate (cfg m);
          err = c_int (request_rate_error m
                  - c_int (request_count_cur m * REQRATE_FIXED_MULT));
          err = c_int (err + c_int (rate * REQRATE_FIXED_MULT) sdiv REQRATE_INT);
          t = c_int (rate * REQRATE_FIXED_MULT) sdiv REQRATE_INT;
          err = clamp_error t err
      in m\<lparr>request_rate_error := err,
           request_count_target :=
             c_int (rate sdiv REQRATE_INT + err sdiv REQRATE_FIXED_MULT),
           request_count_cur := 0\<rparr>)"

definition clt_mgr_reqrate_pacer_check :: "clt_mgr \<Rightarrow> bool" where
  "clt_mgr_reqrate_pacer_check m =
     (if target_request_rate (cfg m) < 0 then True
      else if request_count_cur m \<ge> request_count_target m then False
      else True)"

definition clt_mgr_reqrate_pacer_inc :: "clt_mgr \<Rightarrow> clt_mgr" where
  "clt_mgr_reqrate_pacer_inc m =
     (if target_request_rate (cfg m) < 0 then m
      else m\<lparr>request_count_cur := c_int (request_count_cur m + 1)\<rparr>)"

section \<open>A run of the pacer\<close>

text \<open>
  One interval: the update, then a number of attempts to start a request, each
  one granted only if the check allows it.
\<close>

primrec attempts :: "nat \<Rightarrow> clt_mgr \<Rightarrow> nat \<times> clt_mgr" where
  "attempts 0 m = (0, m)"
| "attempts (Suc n) m =
     (if clt_mgr_reqrate_pacer_check m then
        (case attempts n (clt_mgr_reqrate_pacer_inc m) of (g, m') \<Rightarrow> (Suc g, m'))
      else attempts n m)"

fun pacer_run :: "nat list \<Rightarrow> clt_mgr \<Rightarrow> nat \<times> clt_mgr" where
  "pacer_run [] m = (0, m)"
| "pacer_run (n # ns) m =
     (case attempts n (clt_mgr_reqrate_pacer_update m) of
        (g, m') \<Rightarrow> (case pacer_run ns m' of (g', m'') \<Rightarrow> (g + g', m'')))"

section \<open>The invariant\<close>

text \<open>Rates whose fixed-point form fits an \<open>int\<close>.\<close>

definition rate_ok :: "int \<Rightarrow> bool" where
  "rate_ok rate \<longleftrightarrow> 0 \<le> rate \<and> rate \<le> 2147483"

definition pacer_inv :: "clt_mgr \<Rightarrow> bool" where
  "pacer_inv m \<longleftrightarrow>
     (let rate = target_request_rate (cfg m) in
      rate_ok rate \<and> 0 \<le> request_rate_error m \<and> request_rate_error m \<le> 10 * rate
      \<and> 0 \<le> request_count_cur m \<and> request_count_cur m \<le> request_count_target m
      \<and> 1000 * request_count_target m \<le> 10 * rate + request_rate_error m)"

lemma rate_fixed:
  "rate_ok rate \<Longrightarrow> c_int (rate * REQRATE_FIXED_MULT) sdiv REQRATE_INT = 10 * rate"
  by (simp add: rate_ok_def REQRATE_FIXED_MULT_def REQRATE_INT_def c_int_id in_int_def
      INT_MAX_def INT_MIN_def sdiv_nonneg)

text \<open>
  What an update computes when the invariant holds: nothing overflows, the
  lower clamp is never taken, and the error is the old one minus what was
  started plus the interval's share, cut at one share.
\<close>

lemma pacer_update_eq:
  assumes "pacer_inv m" and rate: "rate = target_request_rate (cfg m)"
    and e: "e = min (10 * rate) (request_rate_error m - 1000 * request_count_cur m + 10 * rate)"
  shows "clt_mgr_reqrate_pacer_update m = m\<lparr>request_rate_error := e,
      request_count_target := rate div 100 + e div 1000, request_count_cur := 0\<rparr>"
    and "0 \<le> e"
proof -
  have inv: "rate_ok rate" "0 \<le> request_rate_error m" "request_rate_error m \<le> 10 * rate"
    "0 \<le> request_count_cur m"
    "1000 * request_count_cur m \<le> 10 * rate + request_rate_error m"
    using assms(1) rate by (auto simp: pacer_inv_def Let_def)
  then have b: "rate \<le> 2147483" "0 \<le> rate" by (simp_all add: rate_ok_def)
  show e0: "0 \<le> e" using inv e b by linarith
  have [simp]: "c_int (request_count_cur m * 1000) = 1000 * request_count_cur m"
    using inv b by (simp add: c_int_id in_int_def INT_MAX_def INT_MIN_def)
  have [simp]: "c_int (request_rate_error m - 1000 * request_count_cur m)
      = request_rate_error m - 1000 * request_count_cur m"
    using inv b by (simp add: c_int_id in_int_def INT_MAX_def INT_MIN_def)
  have [simp]: "c_int (request_rate_error m - 1000 * request_count_cur m + 10 * rate)
      = request_rate_error m - 1000 * request_count_cur m + 10 * rate"
    using inv b by (simp add: c_int_id in_int_def INT_MAX_def INT_MIN_def)
  have [simp]: "c_int (- (10 * rate)) = - (10 * rate)"
    using b by (simp add: c_int_id in_int_def INT_MAX_def INT_MIN_def)
  have e2: "e \<le> 10 * rate" using e by simp
  have t: "c_int (rate sdiv 100 + e sdiv 1000) = rate div 100 + e div 1000"
  proof -
    have "in_int (rate div 100 + e div 1000)"
      using b e0 e2 unfolding in_int_def INT_MAX_def INT_MIN_def by linarith
    then show ?thesis using b e0 by (simp add: sdiv_nonneg c_int_id)
  qed
  have fixed: "c_int (rate * 1000) sdiv 100 = 10 * rate"
    using rate_fixed [OF inv(1)] by (simp add: REQRATE_FIXED_MULT_def REQRATE_INT_def)
  have "0 \<le> request_rate_error m - 1000 * request_count_cur m + 10 * rate"
    using inv by linarith
  then have
    "clamp_error (10 * rate) (request_rate_error m - 1000 * request_count_cur m + 10 * rate) = e"
    using b by (simp add: clamp_error_def e)
  then show "clt_mgr_reqrate_pacer_update m = m\<lparr>request_rate_error := e,
      request_count_target := rate div 100 + e div 1000, request_count_cur := 0\<rparr>"
    using t fixed unfolding clt_mgr_reqrate_pacer_update_def Let_def
    by (simp add: REQRATE_FIXED_MULT_def REQRATE_INT_def rate [symmetric])
qed

lemma pacer_update_inv: "pacer_inv m \<Longrightarrow> pacer_inv (clt_mgr_reqrate_pacer_update m)"
proof -
  assume inv: "pacer_inv m"
  define rate where "rate = target_request_rate (cfg m)"
  define e where
    "e = min (10 * rate) (request_rate_error m - 1000 * request_count_cur m + 10 * rate)"
  note eq = pacer_update_eq [OF inv rate_def e_def]
  have "0 \<le> rate" "rate_ok rate" using inv by (auto simp: pacer_inv_def rate_def rate_ok_def Let_def)
  moreover have "e \<le> 10 * rate" by (simp add: e_def)
  ultimately show ?thesis
    using eq by (simp add: pacer_inv_def rate_def [symmetric] Let_def)
qed

lemma pacer_inc_inv:
  assumes "pacer_inv m" "clt_mgr_reqrate_pacer_check m"
  shows "pacer_inv (clt_mgr_reqrate_pacer_inc m)"
    and "request_count_cur (clt_mgr_reqrate_pacer_inc m) = request_count_cur m + 1"
proof -
  have "request_count_cur m + 1 \<le> 2147483" "0 \<le> request_count_cur m"
    "request_count_cur m < request_count_target m" "0 \<le> target_request_rate (cfg m)"
    using assms
    by (auto simp: pacer_inv_def rate_ok_def clt_mgr_reqrate_pacer_check_def Let_def
        split: if_splits)
  then show "pacer_inv (clt_mgr_reqrate_pacer_inc m)"
    "request_count_cur (clt_mgr_reqrate_pacer_inc m) = request_count_cur m + 1"
    using assms(1)
    by (simp_all add: clt_mgr_reqrate_pacer_inc_def pacer_inv_def Let_def c_int_id in_int_def
        INT_MAX_def INT_MIN_def)
qed

lemma pacer_inc_frame [simp, frame]:
  "cfg (clt_mgr_reqrate_pacer_inc m) = cfg m"
  "request_rate_error (clt_mgr_reqrate_pacer_inc m) = request_rate_error m"
  "request_count_target (clt_mgr_reqrate_pacer_inc m) = request_count_target m"
  "stats (clt_mgr_reqrate_pacer_inc m) = stats m"
  "mgr_state (clt_mgr_reqrate_pacer_inc m) = mgr_state m"
  "mgr_conn_list (clt_mgr_reqrate_pacer_inc m) = mgr_conn_list m"
  by (simp_all add: clt_mgr_reqrate_pacer_inc_def)

lemma pacer_update_frame [simp, frame]:
  "cfg (clt_mgr_reqrate_pacer_update m) = cfg m"
  "stats (clt_mgr_reqrate_pacer_update m) = stats m"
  "mgr_state (clt_mgr_reqrate_pacer_update m) = mgr_state m"
  "mgr_conn_list (clt_mgr_reqrate_pacer_update m) = mgr_conn_list m"
  by (simp_all add: clt_mgr_reqrate_pacer_update_def Let_def)

section \<open>The long-run bound\<close>

lemma attempts_inv:
  assumes "pacer_inv m" "attempts n m = (g, m')"
  shows "pacer_inv m' \<and> cfg m' = cfg m \<and> request_rate_error m' = request_rate_error m
    \<and> request_count_cur m' = request_count_cur m + int g"
  using assms
proof (induction n arbitrary: m g m')
  case 0
  then show ?case by simp
next
  case (Suc n)
  show ?case
  proof (cases "clt_mgr_reqrate_pacer_check m")
    case True
    obtain g1 where g1: "attempts n (clt_mgr_reqrate_pacer_inc m) = (g1, m')" "g = Suc g1"
      using Suc.prems True by (auto split: prod.splits)
    note inc = pacer_inc_inv [OF Suc.prems(1) True]
    show ?thesis
      using Suc.IH [OF inc(1) g1(1)] inc(2) g1(2) by simp
  next
    case False
    then have "attempts n m = (g, m')" using Suc.prems(2) by simp
    then show ?thesis by (rule Suc.IH [OF Suc.prems(1)])
  qed
qed

text \<open>
  The quantity that bounds a run: what the error still allows minus what is
  already counted in the current interval. An update adds at most one share to
  it and a granted request takes 1000 off it.
\<close>

definition credit :: "clt_mgr \<Rightarrow> int" where
  "credit m = request_rate_error m - 1000 * request_count_cur m"

lemma credit_update:
  "pacer_inv m \<Longrightarrow>
     credit (clt_mgr_reqrate_pacer_update m) \<le> credit m + 10 * target_request_rate (cfg m)"
  using pacer_update_eq(1) [OF _ refl refl, of m] by (simp add: credit_def)

lemma credit_lower: "pacer_inv m \<Longrightarrow> - (10 * target_request_rate (cfg m)) \<le> credit m"
  by (auto simp: pacer_inv_def credit_def Let_def)

lemma pacer_run_credit:
  assumes "pacer_inv m" "pacer_run ns m = (g, m')"
  shows "pacer_inv m' \<and> cfg m' = cfg m
     \<and> credit m' + 1000 * int g \<le> credit m + int (length ns) * (10 * target_request_rate (cfg m))"
  using assms
proof (induction ns arbitrary: m g m')
  case Nil
  then show ?case by simp
next
  case (Cons n ns)
  let ?u = "clt_mgr_reqrate_pacer_update m"
  obtain g1 m1 where a: "attempts n ?u = (g1, m1)" by (cases "attempts n ?u") auto
  obtain g2 where r: "pacer_run ns m1 = (g2, m')" and g: "g = g1 + g2"
    using Cons.prems a by (auto split: prod.splits)
  have u: "pacer_inv ?u" using Cons.prems(1) by (rule pacer_update_inv)
  note ai = attempts_inv [OF u a]
  have m1: "pacer_inv m1" "cfg m1 = cfg m" "credit m1 = credit ?u - 1000 * int g1"
    using ai by (simp_all add: credit_def)
  have ih: "pacer_inv m' \<and> cfg m' = cfg m1
     \<and> credit m' + 1000 * int g2 \<le> credit m1 + int (length ns) * (10 * target_request_rate (cfg m1))"
    by (rule Cons.IH [OF m1(1) r])
  with credit_update [OF Cons.prems(1)] m1 g show ?case
    by (simp add: algebra_simps)
qed

end
