(* ===== verification/Clt.thy ===== *)
theory Clt
  imports State
begin

text \<open>
  \<open>clt/clt.c\<close>: one HTTP client connection and the request on it. Every
  function works on the part of the world \<open>clt.c\<close> knows; the callback
  \<open>ncb\<close> is the function the pointer \<open>req->cb.cb\<close> holds. A handler that
  libevhtp calls takes the objects libevhtp passes to it.
\<close>

definition clt_notify_to_str :: "clt_notify_cmd \<Rightarrow> string" where
  "clt_notify_to_str ct = (case ct of
      CLT_NOTIFY_NONE \<Rightarrow> ''CLT_NOTIFY_NONE''
    | CLT_NOTIFY_CONNECTED \<Rightarrow> ''CLT_NOTIFY_CONNECTED''
    | CLT_NOTIFY_CONNECT_ERROR \<Rightarrow> ''CLT_NOTIFY_CONNECT_ERROR''
    | CLT_NOTIFY_REQUEST_START \<Rightarrow> ''CLT_NOTIFY_REQUEST_START''
    | CLT_NOTIFY_REQUEST_DONE_OK \<Rightarrow> ''CLT_NOTIFY_REQUEST_DONE_OK''
    | CLT_NOTIFY_REQUEST_DONE_ERROR \<Rightarrow> ''CLT_NOTIFY_REQUEST_DONE_ERROR''
    | CLT_NOTIFY_REQUEST_TIMEOUT \<Rightarrow> ''CLT_NOTIFY_REQUEST_TIMEOUT''
    | CLT_NOTIFY_CONN_CLOSING \<Rightarrow> ''CLT_NOTIFY_CONN_CLOSING''
    | CLT_NOTIFY_CONN_DESTROYING \<Rightarrow> ''CLT_NOTIFY_CONN_DESTROYING''
    | CLT_NOTIFY_REQ_DESTROYING \<Rightarrow> ''CLT_NOTIFY_REQ_DESTROYING'')"

definition set_creq ::
  "addr \<Rightarrow> client_req \<Rightarrow> 'a clt_world_scheme \<Rightarrow> 'a clt_world_scheme" where
  "set_creq r x w = w\<lparr>creqs := (creqs w)(r \<mapsto> x)\<rparr>"

definition free_creq :: "addr \<Rightarrow> 'a clt_world_scheme \<Rightarrow> 'a clt_world_scheme option" where
  "free_creq r w = do { _ \<leftarrow> creqs w r; Some (w\<lparr>creqs := (creqs w)(r := None)\<rparr>) }"

section \<open>Notification and the inactivity timer\<close>

definition clt_call_notify ::
  "'a clt_world_scheme notify_cb \<Rightarrow> addr \<Rightarrow> clt_notify_cmd \<Rightarrow> int
     \<Rightarrow> 'a clt_world_scheme \<Rightarrow> 'a clt_world_scheme option" where
  "clt_call_notify ncb r ct data w =
     do { x \<leftarrow> creqs w r;
          if r_cb x then ncb r ct data (r_cbdata x) w else Some w }"

definition clt_conn_timeout_rearm ::
  "addr \<Rightarrow> 'a clt_world_scheme \<Rightarrow> 'a clt_world_scheme option" where
  "clt_conn_timeout_rearm r w =
     do { x \<leftarrow> creqs w r; event_add (r_ev_timeout x) (Some (5, 0)) w }"

definition clt_conn_timeout_stop ::
  "addr \<Rightarrow> 'a clt_world_scheme \<Rightarrow> 'a clt_world_scheme option" where
  "clt_conn_timeout_stop r w =
     do { x \<leftarrow> creqs w r; event_del (r_ev_timeout x) w }"

definition clt_conn_timeout ::
  "'a clt_world_scheme notify_cb \<Rightarrow> addr \<Rightarrow> 'a clt_world_scheme \<Rightarrow> 'a clt_world_scheme option"
  where
  "clt_conn_timeout ncb r w = clt_call_notify ncb r CLT_NOTIFY_REQUEST_TIMEOUT 0 w"

section \<open>The connection goes away\<close>

definition clt_upstream_conn_fini ::
  "'a clt_world_scheme notify_cb \<Rightarrow> addr \<Rightarrow> addr
     \<Rightarrow> 'a clt_world_scheme \<Rightarrow> 'a clt_world_scheme option" where
  "clt_upstream_conn_fini ncb conn r w =
     do { let w = emit (Connection_unset_hooks conn) w;
          x \<leftarrow> creqs w r;
          let w = (case r_req x of None \<Rightarrow> w | Some q \<Rightarrow> emit (Request_unset_hooks q) w);
          let w = set_creq r (x\<lparr>r_con := None, r_req := None\<rparr>) w;
          w \<leftarrow> clt_conn_timeout_rearm r w;
          clt_call_notify ncb r CLT_NOTIFY_CONN_CLOSING 0 w }"

definition evhtp_connection_free ::
  "env \<Rightarrow> 'a clt_world_scheme notify_cb \<Rightarrow> addr
     \<Rightarrow> 'a clt_world_scheme \<Rightarrow> 'a clt_world_scheme option" where
  \<comment> \<open>the call, which may run the connection's fini hook before it releases\<close>
  "evhtp_connection_free env ncb k w =
     do { w \<leftarrow> (if env_fini_hook env k then
                  (case con_hook (calls w) k of
                     None \<Rightarrow> Some w
                   | Some r \<Rightarrow> clt_upstream_conn_fini ncb k r w)
                else Some w);
          Some (emit (Connection_free k) w) }"

definition clt_conn_destroy ::
  "env \<Rightarrow> 'a clt_world_scheme notify_cb \<Rightarrow> addr
     \<Rightarrow> 'a clt_world_scheme \<Rightarrow> 'a clt_world_scheme option" where
  "clt_conn_destroy env ncb r w =
     do { x \<leftarrow> creqs w r;
          let w = (case r_req x of None \<Rightarrow> w | Some q \<Rightarrow> emit (Request_unset_hooks q) w);
          let w = (case r_con x of
                     Some k \<Rightarrow>
                       (case r_req x of
                          None \<Rightarrow> w
                        | Some q \<Rightarrow>
                            let w' = emit (Connection_access k) w in
                            if con_request (calls w') k \<noteq> Some q then emit (Request_free q) w'
                            else w')
                   | None \<Rightarrow>
                       (case r_req x of None \<Rightarrow> w | Some q \<Rightarrow> emit (Request_free q) w));
          w \<leftarrow> (case r_con x of
                  None \<Rightarrow> Some w
                | Some k \<Rightarrow> evhtp_connection_free env ncb k w);
          x \<leftarrow> creqs w r;
          w \<leftarrow> (case r_ev_timeout x of
                  None \<Rightarrow> Some w
                | Some e \<Rightarrow> do { w \<leftarrow> event_del (Some e) w; event_free (Some e) w });
          free_creq r w }"

section \<open>The request goes away\<close>

definition clt_req_destroy ::
  "'a clt_world_scheme notify_cb \<Rightarrow> addr \<Rightarrow> 'a clt_world_scheme \<Rightarrow> 'a clt_world_scheme option"
  where
  "clt_req_destroy ncb r w =
     do { w \<leftarrow> clt_call_notify ncb r CLT_NOTIFY_REQ_DESTROYING 0 w;
          x \<leftarrow> creqs w r;
          let w = (case r_req x of
                     None \<Rightarrow> w
                   | Some q \<Rightarrow> set_creq r (x\<lparr>r_req := None\<rparr>)
                       (emit (Request_free q) (emit (Request_unset_hooks q) w)));
          x \<leftarrow> creqs w r;
          Some (set_creq r (x\<lparr>r_uri := None\<rparr>) w) }"

definition clt_upstream_fini ::
  "'a clt_world_scheme notify_cb \<Rightarrow> addr \<Rightarrow> addr
     \<Rightarrow> 'a clt_world_scheme \<Rightarrow> 'a clt_world_scheme option" where
  "clt_upstream_fini ncb upstream_req r w =
     do { x \<leftarrow> creqs w r;
          q \<leftarrow> r_req x;
          let w = emit (Request_unset_hooks q) w;
          w \<leftarrow> clt_conn_timeout_stop r w;
          x \<leftarrow> creqs w r;
          let w = set_creq r (x\<lparr>r_req := None\<rparr>) w;
          clt_req_destroy ncb r w }"

definition clt_req_cb ::
  "'a clt_world_scheme notify_cb \<Rightarrow> addr \<Rightarrow> addr \<Rightarrow> int
     \<Rightarrow> 'a clt_world_scheme \<Rightarrow> 'a clt_world_scheme option" where
  \<comment> \<open>\<open>status\<close> is what \<open>evhtp_request_status(r)\<close> returns\<close>
  "clt_req_cb ncb q0 r status w =
     do { let w = emit (Request_access q0) w;
          w \<leftarrow> clt_call_notify ncb r CLT_NOTIFY_REQUEST_DONE_OK status w;
          w \<leftarrow> clt_conn_timeout_stop r w;
          x \<leftarrow> creqs w r;
          q \<leftarrow> r_req x;
          let w = emit (Request_unset_hooks q) w;
          k \<leftarrow> r_con x;
          let w = emit (Connection_clear_request k) w;
          clt_req_destroy ncb r w }"

section \<open>Progress hooks\<close>

definition clt_upstream_new_chunk ::
  "addr \<Rightarrow> addr \<Rightarrow> u64 \<Rightarrow> 'a clt_world_scheme \<Rightarrow> 'a clt_world_scheme option" where
  "clt_upstream_new_chunk upstream_req r len w =
     do { x \<leftarrow> creqs w r; q \<leftarrow> r_req x;
          clt_conn_timeout_rearm r (emit (Request_access q) w) }"

definition clt_upstream_chunk_done ::
  "addr \<Rightarrow> addr \<Rightarrow> u64 \<Rightarrow> 'a clt_world_scheme \<Rightarrow> 'a clt_world_scheme option" where
  \<comment> \<open>\<open>len\<close> is what \<open>evbuffer_get_length\<close> returns\<close>
  "clt_upstream_chunk_done upstream_req r len w =
     do { x \<leftarrow> creqs w r; q \<leftarrow> r_req x;
          w \<leftarrow> clt_conn_timeout_rearm r (emit (Request_access q) w);
          Some (emit (Request_drain q len) w) }"

definition clt_upstream_chunks_done ::
  "addr \<Rightarrow> addr \<Rightarrow> 'a clt_world_scheme \<Rightarrow> 'a clt_world_scheme option" where
  "clt_upstream_chunks_done upstream_req r w = clt_conn_timeout_rearm r w"

definition clt_upstream_headers_start ::
  "addr \<Rightarrow> addr \<Rightarrow> 'a clt_world_scheme \<Rightarrow> 'a clt_world_scheme option" where
  "clt_upstream_headers_start upstream_req r w = clt_conn_timeout_rearm r w"

definition clt_upstream_error ::
  "'a clt_world_scheme notify_cb \<Rightarrow> addr \<Rightarrow> bool \<Rightarrow> addr
     \<Rightarrow> 'a clt_world_scheme \<Rightarrow> 'a clt_world_scheme option" where
  \<comment> \<open>\<open>timeout\<close> is the bit \<open>errtype & BEV_EVENT_TIMEOUT\<close>\<close>
  "clt_upstream_error ncb q timeout r w =
     do { w \<leftarrow> (if timeout then clt_call_notify ncb r CLT_NOTIFY_REQUEST_TIMEOUT 0 w
                else clt_call_notify ncb r CLT_NOTIFY_REQUEST_DONE_ERROR 0 w);
          clt_conn_timeout_stop r w }"

section \<open>Creating connections and requests\<close>

definition clt_conn_create_error ::
  "env \<Rightarrow> 'a clt_world_scheme notify_cb \<Rightarrow> addr \<Rightarrow> 'a clt_world_scheme
     \<Rightarrow> (addr option \<times> 'a clt_world_scheme) option" where
  \<comment> \<open>the code at the label \<open>error\<close>, for a block that was allocated\<close>
  "clt_conn_create_error env ncb r w =
     do { x \<leftarrow> creqs w r;
          w \<leftarrow> (case r_con x of None \<Rightarrow> Some w | Some k \<Rightarrow> evhtp_connection_free env ncb k w);
          w \<leftarrow> (case r_ev_timeout x of
                  None \<Rightarrow> Some w
                | Some e \<Rightarrow> do { w \<leftarrow> event_del (Some e) w; event_free (Some e) w });
          w \<leftarrow> free_creq r w;
          Some (None, w) }"

definition clt_conn_create ::
  "env \<Rightarrow> 'a clt_world_scheme notify_cb \<Rightarrow> addr \<Rightarrow> string option \<Rightarrow> string option \<Rightarrow> int
     \<Rightarrow> 'a clt_world_scheme \<Rightarrow> (addr option \<times> 'a clt_world_scheme) option" where
  "clt_conn_create env ncb cbdata a_host_ip a_host_hdr a_port w =
     (case alloc env Calloc_req w of
        (None, w) \<Rightarrow> Some (None, w)
      | (Some r, w) \<Rightarrow>
          let w = set_creq r client_req_zero w in
          do { ip \<leftarrow> a_host_ip;
               let (ok, w) = alloc env Strdup_host_ip w;
               if ok = None then clt_conn_create_error env ncb r w else
               do { let (ok, w) = alloc env Strdup_host_hdr
                          (set_creq r (client_req_zero\<lparr>r_host_ip := Some ip\<rparr>) w);
                    if ok = None then clt_conn_create_error env ncb r w else
                    do { let (con, w) = alloc env Evhtp_connection_new w;
                         let x = client_req_zero\<lparr>r_host_ip := Some ip, r_host_hdr := Some ip,
                                   r_port := a_port, r_uri := None, r_con := con,
                                   r_cb := True, r_cbdata := cbdata\<rparr>;
                         (case con of
                            None \<Rightarrow> clt_conn_create_error env ncb r (set_creq r x w)
                          | Some k \<Rightarrow>
                              (let w = emit (Connection_new k) w;
                                   w = emit (Connection_set_hook k r) w;
                                   w = emit (Connection_set_timeouts k (5, 0) (5, 0)) w;
                                   (e, w) = event_new env (Ev_timeout r) w
                               in Some (Some r, set_creq r (x\<lparr>r_ev_timeout := e\<rparr>) w))) }}})"

definition clt_req_headers :: "addr \<Rightarrow> string \<Rightarrow> int \<Rightarrow> libcall list" where
  "clt_req_headers q host keepalive =
     [Request_add_header q ''Host'' host,
      Request_add_header q ''User-Agent'' ''client'',
      (if keepalive \<noteq> 0 then Request_add_header q ''Connection'' ''keep-alive''
       else Request_add_header q ''Connection'' ''close'')]"

definition clt_req_hooks :: "addr \<Rightarrow> addr \<Rightarrow> libcall list" where
  "clt_req_hooks q r =
     [Request_set_hook q on_error r, Request_set_hook q on_request_fini r,
      Request_set_hook q on_new_chunk r, Request_set_hook q on_chunk_complete r,
      Request_set_hook q on_chunks_complete r, Request_set_hook q on_headers_start r]"

definition clt_req_create ::
  "env \<Rightarrow> addr \<Rightarrow> string option \<Rightarrow> int \<Rightarrow> 'a clt_world_scheme
     \<Rightarrow> (int \<times> 'a clt_world_scheme) option" where
  "clt_req_create env r a_uri keepalive w =
     do { x \<leftarrow> creqs w r;
          if r_req x \<noteq> None then Some (-1, w)
          else case r_con x of
            None \<Rightarrow> Some (-1, w)
          | Some k \<Rightarrow>
              do { u \<leftarrow> a_uri;
                   let (ok, w) = alloc env Strdup_uri w;
                   if ok = None then Some (-1, set_creq r (x\<lparr>r_uri := None\<rparr>) w) else
                   do { let (req, w) = alloc env Evhtp_request_new w;
                        (case req of
                           None \<Rightarrow> Some (-1, set_creq r (x\<lparr>r_uri := Some u, r_req := None\<rparr>) w)
                         | Some q \<Rightarrow>
                             do { host \<leftarrow> r_host_hdr x;
                                  let x = x\<lparr>r_uri := Some u, r_req := Some q,
                                            r_is_keepalive := keepalive\<rparr>;
                                  let w = fold emit
                                    (Request_new q r # clt_req_headers q host keepalive
                                       @ clt_req_hooks q r @ [Make_request k q u])
                                    (set_creq r x w);
                                  Some (0, w) }) }}}"

end
