(* ===== verification/Mgr.thy ===== *)
theory Mgr
  imports Pacer Clt
begin

text \<open>
  \<open>clt/mgr.c\<close> from the connection objects on: their events, the callback that
  \<open>clt.c\<close> notifies, creation and destruction, the timers and the state
  machine of the manager. The argument \<open>c\<close> is the address of a
  \<open>clt_mgr_conn\<close>; the manager itself is the field \<open>mgr\<close> of the world.
\<close>

definition set_conn :: "addr \<Rightarrow> clt_mgr_conn \<Rightarrow> world \<Rightarrow> world" where
  "set_conn c m w = w\<lparr>conns := (conns w)(c \<mapsto> m)\<rparr>"

definition upd_mgr :: "(clt_mgr \<Rightarrow> clt_mgr) \<Rightarrow> world \<Rightarrow> world" where
  "upd_mgr f w = w\<lparr>mgr := f (mgr w)\<rparr>"

definition upd_stats :: "(mgr_stats \<Rightarrow> mgr_stats) \<Rightarrow> world \<Rightarrow> world" where
  "upd_stats f w = upd_mgr (\<lambda>m. m\<lparr>stats := f (stats m)\<rparr>) w"

definition clt_mgr_state_str :: "clt_mgr_state \<Rightarrow> string" where
  "clt_mgr_state_str s = (case s of
      CLT_MGR_STATE_NONE \<Rightarrow> ''NONE''
    | CLT_MGR_STATE_INIT \<Rightarrow> ''INIT''
    | CLT_MGR_STATE_RUNNING \<Rightarrow> ''RUNNING''
    | CLT_MGR_STATE_WAITING \<Rightarrow> ''WAITING''
    | CLT_MGR_STATE_CLEANUP \<Rightarrow> ''CLEANUP''
    | CLT_MGR_STATE_CLEANUP_WAITING \<Rightarrow> ''CLEANUP_WAITING''
    | CLT_MGR_STATE_COMPLETED \<Rightarrow> ''COMPLETED'')"

definition clt_mgr_state_change :: "clt_mgr_state \<Rightarrow> world \<Rightarrow> world" where
  "clt_mgr_state_change new_state w = upd_mgr (\<lambda>m. m\<lparr>mgr_state := new_state\<rparr>) w"

definition mgr_statustype_update :: "int \<Rightarrow> mgr_stats \<Rightarrow> mgr_stats" where
  "mgr_statustype_update status s =
     (if status = 200 then s\<lparr>req_statustype_200 := req_statustype_200 s + 1\<rparr>
      else if status = 302 then s\<lparr>req_statustype_302 := req_statustype_302 s + 1\<rparr>
      else s\<lparr>req_statustype_other := req_statustype_other s + 1\<rparr>)"

section \<open>Scheduling work on a connection\<close>

definition clt_mgr_conn_start_http_req :: "addr \<Rightarrow> int \<Rightarrow> world \<Rightarrow> world option" where
  "clt_mgr_conn_start_http_req c msec w =
     do { m \<leftarrow> conns w c;
          let w = set_conn c (m\<lparr>pending_http_req := 1\<rparr>) w;
          if msec \<le> 0 then
            do { w \<leftarrow> event_add (ev_new_http_req m) None w;
                 event_active (ev_new_http_req m) w }
          else event_add (ev_new_http_req m)
                 (Some (msec sdiv 1000, c_int ((msec smod 1000) * 1000))) w }"

definition clt_mgr_conn_cancel_http_req :: "addr \<Rightarrow> world \<Rightarrow> (int \<times> world) option" where
  "clt_mgr_conn_cancel_http_req c w =
     do { m \<leftarrow> conns w c;
          if pending_http_req m \<noteq> 1 then Some (-1, w)
          else do { w \<leftarrow> event_del (ev_new_http_req m) w; Some (0, w) } }"

definition clt_mgr_conn_destroy :: "addr \<Rightarrow> world \<Rightarrow> world option" where
  "clt_mgr_conn_destroy c w =
     do { m \<leftarrow> conns w c;
          let w = set_conn c (m\<lparr>is_dead := 1\<rparr>) w;
          w \<leftarrow> event_add (ev_conn_destroy m) None w;
          event_active (ev_conn_destroy m) w }"

section \<open>Limits\<close>

definition clt_mgr_conn_check_create_http_request :: "clt_mgr \<Rightarrow> clt_mgr_conn \<Rightarrow> bool" where
  "clt_mgr_conn_check_create_http_request m c =
     (if is_dead c \<noteq> 0 then False
      else if c_target_request_count c \<le> 0 \<and> mgr_state m \<noteq> CLT_MGR_STATE_RUNNING then False
      else if http_keepalive (cfg m) = 0 then False
      else if c_target_request_count c > 0
              \<and> cur_req_count c \<ge> c_target_request_count c then False
      else True)"

definition clt_mgr_check_create_http_request :: "clt_mgr \<Rightarrow> bool" where
  "clt_mgr_check_create_http_request m =
     (if target_global_request_count (cfg m) > 0
         \<and> req_count (stats m) \<ge> word_of_int (target_global_request_count (cfg m))
      then False else True)"

definition clt_mgr_check_create_conn :: "clt_mgr \<Rightarrow> bool" where
  "clt_mgr_check_create_conn m =
     (if mgr_state m \<noteq> CLT_MGR_STATE_RUNNING \<and> mgr_state m \<noteq> CLT_MGR_STATE_INIT then False
      else if target_total_nconn_count (cfg m) > 0
              \<and> conn_count (stats m) \<ge> word_of_int (target_total_nconn_count (cfg m)) then False
      else if nconn (stats m) \<ge> target_nconn (cfg m) then False
      else True)"

definition clt_mgr_check_finished :: "clt_mgr \<Rightarrow> bool" where
  "clt_mgr_check_finished m =
     (if target_global_request_count (cfg m) > 0
         \<and> req_count (stats m) \<ge> word_of_int (target_global_request_count (cfg m)) then True
      else if target_total_nconn_count (cfg m) > 0
         \<and> conn_count (stats m) \<ge> word_of_int (target_total_nconn_count (cfg m)) then True
      else False)"

definition clt_mgr_check_waiting_finished :: "clt_mgr \<Rightarrow> bool" where
  "clt_mgr_check_waiting_finished m = (if nconn (stats m) = 0 then True else False)"

section \<open>Creating a connection\<close>

text \<open>
  \<open>clt_conn_create\<close> calls back only from its error path on a connection
  that has one, which the code never reaches; the callback is a parameter here
  because the C function is defined after its use.
\<close>

definition clt_mgr_conn_create ::
  "env \<Rightarrow> world notify_cb \<Rightarrow> world \<Rightarrow> (addr option \<times> world) option" where
  "clt_mgr_conn_create env ncb w =
     (case alloc env Calloc_conn w of
        (None, w) \<Rightarrow> Some (None, w)
      | (Some c, w) \<Rightarrow>
          do { let w = set_conn c clt_mgr_conn_zero w;
               (addr, arr) \<leftarrow> cfg_ipv4_array_get_next (ipv4_dst (cfg (mgr w)));
               let w = upd_mgr (\<lambda>m. m\<lparr>cfg := (cfg m)\<lparr>ipv4_dst := arr\<rparr>\<rparr>) w;
               let host = (case host_hdr (cfg (mgr w)) of None \<Rightarrow> addr | Some h \<Rightarrow> Some h);
               (req, w) \<leftarrow> clt_conn_create env ncb c addr host (port (cfg (mgr w))) w;
               let (e1, w) = event_new env (Ev_http_req c) w;
               let (e2, w) = event_new env (Ev_conn_destroy c) w;
               (if req = None then
                  do { w \<leftarrow> (if e1 = None then Some w else event_free e1 w);
                       w \<leftarrow> (if e2 = None then Some w else event_free e2 w);
                       Some (None, w\<lparr>conns := (conns w)(c := None)\<rparr>) }
                else
                  (let w = set_conn c (clt_mgr_conn_zero\<lparr>c_req := req, ev_new_http_req := e1,
                         ev_conn_destroy := e2,
                         c_target_request_count := target_request_count (cfg (mgr w)),
                         c_wait_time_pre_http_req_msec :=
                           wait_time_pre_http_req_msec (cfg (mgr w))\<rparr>) w;
                       w = upd_mgr (\<lambda>m. m\<lparr>mgr_conn_list := mgr_conn_list m @ [c]\<rparr>) w
                   in Some (Some c, w))) })"

definition clt_mgr_conn_try_create ::
  "env \<Rightarrow> world notify_cb \<Rightarrow> world \<Rightarrow> (int \<times> world) option" where
  "clt_mgr_conn_try_create env ncb w =
     (if \<not> clt_mgr_check_create_conn (mgr w) then Some (-1, w)
      else if \<not> clt_mgr_reqrate_pacer_check (mgr w) then Some (-1, w)
      else do {
        (c, w) \<leftarrow> clt_mgr_conn_create env ncb w;
        (case c of
           None \<Rightarrow> Some (-1, upd_stats
             (\<lambda>s. s\<lparr>nconn_create_failed := nconn_create_failed s + 1\<rparr>) w)
         | Some c \<Rightarrow>
             do { let w = upd_stats (\<lambda>s. s\<lparr>nconn := c_int (nconn s + 1)\<rparr>) w;
                  let w = upd_stats (\<lambda>s. s\<lparr>conn_count := conn_count s + 1\<rparr>) w;
                  let w = upd_mgr clt_mgr_reqrate_pacer_inc w;
                  m \<leftarrow> conns w c;
                  w \<leftarrow> clt_mgr_conn_start_http_req c (c_wait_time_pre_http_req_msec m) w;
                  Some (0, w) }) })"

section \<open>The callback\<close>

definition no_cb :: "world notify_cb" where
  \<comment> \<open>the callback argument of creations, which is never called\<close>
  "no_cb r ct data c w = None"

definition clt_mgr_conn_notify_cb :: "env \<Rightarrow> world notify_cb" where
  "clt_mgr_conn_notify_cb env r what data c w =
     do { m \<leftarrow> conns w c;
          (if what = CLT_NOTIFY_REQUEST_DONE_OK then
             (let w = upd_stats (\<lambda>s. s\<lparr>req_count_ok := req_count_ok s + 1\<rparr>) w
              in Some (upd_stats (mgr_statustype_update data) w))
           else if what = CLT_NOTIFY_REQUEST_DONE_ERROR then
             Some (upd_stats (\<lambda>s. s\<lparr>req_count_err := req_count_err s + 1\<rparr>) w)
           else if what = CLT_NOTIFY_REQUEST_TIMEOUT then
             do { let w = upd_stats (\<lambda>s. s\<lparr>req_count_timeout := req_count_timeout s + 1\<rparr>) w;
                  (_, w) \<leftarrow> clt_mgr_conn_cancel_http_req c w;
                  clt_mgr_conn_destroy c w }
           else if what = CLT_NOTIFY_REQ_DESTROYING then
             (if clt_mgr_conn_check_create_http_request (mgr w) m
                 \<and> clt_mgr_check_create_http_request (mgr w)
                 \<and> clt_mgr_reqrate_pacer_check (mgr w) then
                clt_mgr_conn_start_http_req c (c_wait_time_pre_http_req_msec m)
                  (upd_mgr clt_mgr_reqrate_pacer_inc w)
              else clt_mgr_conn_destroy c w)
           else if what = CLT_NOTIFY_CONN_CLOSING then
             do { (_, w) \<leftarrow> clt_mgr_conn_cancel_http_req c w;
                  w \<leftarrow> clt_mgr_conn_destroy c w;
                  let w = upd_stats (\<lambda>s. s\<lparr>conn_closing_count := conn_closing_count s + 1\<rparr>) w;
                  (_, w) \<leftarrow> clt_mgr_conn_try_create env no_cb w;
                  Some w }
           else Some w) }"

section \<open>Destroying a connection, issuing a request\<close>

definition tailq_remove :: "addr \<Rightarrow> world \<Rightarrow> world option" where
  "tailq_remove c w =
     (if c \<in> set (mgr_conn_list (mgr w)) then
        Some (upd_mgr (\<lambda>m. m\<lparr>mgr_conn_list := remove1 c (mgr_conn_list m)\<rparr>) w)
      else None)"

definition clt_mgr_conn_destroy_now :: "env \<Rightarrow> addr \<Rightarrow> world \<Rightarrow> world option" where
  \<comment> \<open>the function \<open>_clt_mgr_conn_destroy\<close>\<close>
  "clt_mgr_conn_destroy_now env c w =
     do { m \<leftarrow> conns w c;
          w \<leftarrow> event_del (ev_new_http_req m) w;
          w \<leftarrow> event_del (ev_conn_destroy m) w;
          w \<leftarrow> (case c_req m of
                  None \<Rightarrow> Some w
                | Some r \<Rightarrow> clt_conn_destroy env (clt_mgr_conn_notify_cb env) r w);
          m \<leftarrow> conns w c;
          w \<leftarrow> event_free (ev_new_http_req m) w;
          w \<leftarrow> event_free (ev_conn_destroy m) w;
          let w = upd_stats (\<lambda>s. s\<lparr>nconn := c_int (nconn s - 1)\<rparr>) w;
          w \<leftarrow> tailq_remove c w;
          Some (w\<lparr>conns := (conns w)(c := None)\<rparr>) }"

definition clt_mgr_conn_destroy_event :: "env \<Rightarrow> addr \<Rightarrow> world \<Rightarrow> world option" where
  "clt_mgr_conn_destroy_event env c w = clt_mgr_conn_destroy_now env c w"

definition clt_mgr_conn_http_req_event :: "env \<Rightarrow> addr \<Rightarrow> world \<Rightarrow> world option" where
  "clt_mgr_conn_http_req_event env c w =
     do { m \<leftarrow> conns w c;
          r \<leftarrow> c_req m;
          _ \<leftarrow> creqs w r;
          let w = set_conn c (m\<lparr>pending_http_req := 0\<rparr>) w;
          (rc, w) \<leftarrow> clt_req_create env r (uri (cfg (mgr w))) (http_keepalive (cfg (mgr w))) w;
          (if rc < 0 then
             Some (upd_stats (\<lambda>s. s\<lparr>req_count_create_err := req_count_create_err s + 1\<rparr>) w)
           else
             do { m \<leftarrow> conns w c;
                  let w = set_conn c (m\<lparr>cur_req_count := c_int (cur_req_count m + 1)\<rparr>) w;
                  Some (upd_stats (\<lambda>s. s\<lparr>req_count := req_count s + 1\<rparr>) w) }) }"

section \<open>The state machine\<close>

definition clt_mgr_waiting_schedule :: "world \<Rightarrow> world option" where
  "clt_mgr_waiting_schedule w =
     event_add (t_wait_timerev (mgr w)) (Some (waiting_period_sec (cfg (mgr w)), 0)) w"

definition clt_mgr_waiting_deschedule :: "world \<Rightarrow> world option" where
  "clt_mgr_waiting_deschedule w = event_del (t_wait_timerev (mgr w)) w"

definition clt_mgr_cleanup_schedule :: "world \<Rightarrow> world option" where
  "clt_mgr_cleanup_schedule w = event_add (t_cleanup_timerev (mgr w)) (Some (1, 0)) w"

definition clt_mgr_cleanup_deschedule :: "world \<Rightarrow> world option" where
  "clt_mgr_cleanup_deschedule w = event_del (t_cleanup_timerev (mgr w)) w"

definition clt_mgr_state_set_waiting :: "world \<Rightarrow> world option" where
  "clt_mgr_state_set_waiting w =
     do { let w = clt_mgr_state_change CLT_MGR_STATE_WAITING w;
          w \<leftarrow> clt_mgr_waiting_schedule w;
          event_del (t_running_timerev (mgr w)) w }"

definition clt_mgr_set_running_timer :: "world \<Rightarrow> world option" where
  "clt_mgr_set_running_timer w =
     (if running_period_sec (cfg (mgr w)) < 0 then Some w
      else event_add (t_running_timerev (mgr w))
             (Some (running_period_sec (cfg (mgr w)), 0)) w)"

function create_loop :: "env \<Rightarrow> int \<Rightarrow> int \<Rightarrow> int \<Rightarrow> int \<Rightarrow> world \<Rightarrow> world option" where
  \<comment> \<open>the \<open>for\<close> loop of \<open>clt_mgr_timer_state_running\<close>; the two bounds are
      configuration fields that no iteration changes\<close>
  "create_loop env tn burst i j w =
     (if i < tn \<and> j \<le> burst then
        do { (rc, w) \<leftarrow> clt_mgr_conn_try_create env no_cb w;
             if rc < 0 then Some w else create_loop env tn burst (i + 1) (j + 1) w }
      else Some w)"
  by pat_completeness auto
termination
  by (relation "measure (\<lambda>(env, tn, burst, i, j, w). nat (tn - i))") auto

declare create_loop.simps [simp del]

definition clt_mgr_timer_state_running :: "env \<Rightarrow> world \<Rightarrow> world option" where
  "clt_mgr_timer_state_running env w =
     do { let w = (if target_request_rate (cfg (mgr w)) > 0
                   then upd_mgr clt_mgr_reqrate_pacer_update w else w);
          w \<leftarrow> create_loop env (target_nconn (cfg (mgr w))) (burst_conn (cfg (mgr w)))
                 (nconn (stats (mgr w))) 0 w;
          if clt_mgr_check_finished (mgr w) then clt_mgr_state_set_waiting w else Some w }"

definition clt_mgr_waiting_timer :: "world \<Rightarrow> world option" where
  "clt_mgr_waiting_timer w =
     (if mgr_state (mgr w) \<noteq> CLT_MGR_STATE_WAITING then Some w
      else clt_mgr_cleanup_schedule (clt_mgr_state_change CLT_MGR_STATE_CLEANUP w))"

definition clt_mgr_timer_state_waiting :: "world \<Rightarrow> world option" where
  "clt_mgr_timer_state_waiting w =
     (if \<not> clt_mgr_check_waiting_finished (mgr w) then Some w
      else if mgr_state (mgr w) \<noteq> CLT_MGR_STATE_WAITING then Some w
      else do { let w = clt_mgr_state_change CLT_MGR_STATE_CLEANUP w;
                w \<leftarrow> clt_mgr_waiting_deschedule w;
                clt_mgr_cleanup_schedule w })"

definition clt_mgr_timer_state_cleanup_waiting :: "world \<Rightarrow> world option" where
  "clt_mgr_timer_state_cleanup_waiting w =
     (if mgr_state (mgr w) \<noteq> CLT_MGR_STATE_CLEANUP_WAITING then Some w
      else if nconn (stats (mgr w)) \<noteq> 0 then Some w
      else do { let w = clt_mgr_state_change CLT_MGR_STATE_COMPLETED w;
                event_del (t_timerev (mgr w)) w })"

primrec destroy_all :: "addr list \<Rightarrow> world \<Rightarrow> world option" where
  \<comment> \<open>\<open>TAILQ_FOREACH_SAFE\<close>: the list is not changed while it is walked\<close>
  "destroy_all [] w = Some w"
| "destroy_all (c # cs) w = do { w \<leftarrow> clt_mgr_conn_destroy c w; destroy_all cs w }"

definition clt_mgr_cleanup_timer :: "world \<Rightarrow> world option" where
  "clt_mgr_cleanup_timer w =
     (if mgr_state (mgr w) \<noteq> CLT_MGR_STATE_CLEANUP then Some w
      else do { w \<leftarrow> destroy_all (mgr_conn_list (mgr w)) w;
                Some (clt_mgr_state_change CLT_MGR_STATE_CLEANUP_WAITING w) })"

definition clt_mgr_running_timer :: "world \<Rightarrow> world option" where
  "clt_mgr_running_timer w = clt_mgr_state_set_waiting w"

definition clt_mgr_stat_timer ::
  "(mgr_stats \<Rightarrow> world \<Rightarrow> world) \<Rightarrow> world \<Rightarrow> world option" where
  \<comment> \<open>the first argument is the function \<open>m->stats_cb\<close> points to\<close>
  "clt_mgr_stat_timer stats_cb w =
     do { let w = stats_cb (stats (mgr w)) w;
          if mgr_state (mgr w) = CLT_MGR_STATE_COMPLETED then Some w
          else event_add (t_stat_timerev (mgr w)) (Some (0, 250000)) w }"

definition clt_mgr_timer :: "env \<Rightarrow> world \<Rightarrow> world option" where
  "clt_mgr_timer env w =
     do { w \<leftarrow> (case mgr_state (mgr w) of
                  CLT_MGR_STATE_RUNNING \<Rightarrow> clt_mgr_timer_state_running env w
                | CLT_MGR_STATE_WAITING \<Rightarrow> clt_mgr_timer_state_waiting w
                | CLT_MGR_STATE_CLEANUP \<Rightarrow> Some w
                | CLT_MGR_STATE_CLEANUP_WAITING \<Rightarrow> clt_mgr_timer_state_cleanup_waiting w
                | CLT_MGR_STATE_COMPLETED \<Rightarrow> Some w
                | _ \<Rightarrow> Some w);
          if mgr_state (mgr w) = CLT_MGR_STATE_COMPLETED then Some w
          else event_add (t_timerev (mgr w)) (Some (0, 10000)) w }"

section \<open>Setup and start\<close>

definition clt_mgr_setup :: "env \<Rightarrow> world \<Rightarrow> int \<times> world" where
  "clt_mgr_setup env w =
     (let w = upd_mgr (\<lambda>m. m\<lparr>mgr_conn_list := []\<rparr>) w;
          (e1, w) = event_new env T_timer w;
          (e2, w) = event_new env T_stat w;
          (e3, w) = event_new env T_wait w;
          (e4, w) = event_new env T_cleanup w;
          (e5, w) = event_new env T_running w
      in (0, upd_mgr (\<lambda>m. m\<lparr>t_timerev := e1, t_stat_timerev := e2, t_wait_timerev := e3,
               t_cleanup_timerev := e4, t_running_timerev := e5\<rparr>) w))"

definition clt_mgr_start :: "world \<Rightarrow> world option" where
  "clt_mgr_start w =
     do { w \<leftarrow> clt_mgr_set_running_timer w;
          let w = clt_mgr_state_change CLT_MGR_STATE_RUNNING w;
          w \<leftarrow> event_add (t_timerev (mgr w)) (Some (0, 10000)) w;
          event_add (t_stat_timerev (mgr w)) (Some (1, 0)) w }"

end
