(* ===== verification/Clt_Safety.thy ===== *)
theory Clt_Safety
  imports Clt
begin

text \<open>
  Memory and API safety of \<open>clt.c\<close>. \<open>clt_inv\<close> ties the client blocks to the
  library objects in the log: who owns which connection and request, which
  hooks are installed, that nothing is leaked, and that the log is legal. The
  set \<open>K\<close> holds the connections that are just being released and belong to no
  block any more.

  The lemmas say how each step of \<open>clt.c\<close> moves ownership: a connection goes
  into limbo and is released, a request is made, completed or taken by the
  library, a block is created and dropped.
\<close>

section \<open>What \<open>clt.c\<close> sees of the log\<close>

definition proj_eq :: "log \<Rightarrow> log \<Rightarrow> bool" where
  "proj_eq l l' \<longleftrightarrow> con_live l' = con_live l \<and> con_hook l' = con_hook l
     \<and> con_request l' = con_request l \<and> req_con l' = req_con l \<and> req_live l' = req_live l
     \<and> req_hook l' = req_hook l \<and> req_arg l' = req_arg l
     \<and> (\<forall>r. ev_live l' (Ev_timeout r) = ev_live l (Ev_timeout r))
     \<and> (legal l \<longrightarrow> legal l')"

definition quiet :: "'a clt_world_scheme \<Rightarrow> 'a clt_world_scheme \<Rightarrow> bool" where
  \<comment> \<open>nothing that belongs to \<open>clt.c\<close> changes\<close>
  "quiet w w' \<longleftrightarrow> creqs w' = creqs w \<and> next_addr w' = next_addr w
     \<and> proj_eq (calls w) (calls w')"

definition own_ev :: "ev \<Rightarrow> bool" where
  \<comment> \<open>events of \<open>clt.c\<close>\<close>
  "own_ev e \<longleftrightarrow> (\<exists>r. e = Ev_timeout r)"

definition owner_same :: "'a clt_world_scheme \<Rightarrow> 'a clt_world_scheme \<Rightarrow> bool" where
  \<comment> \<open>nothing that belongs to the owner of the connections changes\<close>
  "owner_same w w' \<longleftrightarrow> clt_world.more w' = clt_world.more w \<and> next_addr w \<le> next_addr w'
     \<and> (\<forall>r. map_option r_cbdata (creqs w' r) = map_option r_cbdata (creqs w r))
     \<and> (\<forall>r. map_option r_cb (creqs w' r) = map_option r_cb (creqs w r))
     \<and> (\<forall>e. \<not> own_ev e \<longrightarrow> ev_live (calls w') e = ev_live (calls w) e
                         \<and> ev_pending (calls w') e = ev_pending (calls w) e)"

section \<open>The invariant\<close>

definition creq_ok :: "log \<Rightarrow> addr \<Rightarrow> client_req \<Rightarrow> bool" where
  "creq_ok l r x \<longleftrightarrow> r_cb x \<and> r_ev_timeout x = Some (Ev_timeout r) \<and> ev_live l (Ev_timeout r)
     \<and> r_host_hdr x \<noteq> None \<and> (r_con x = None \<longrightarrow> r_req x = None)
     \<and> (\<forall>k. r_con x = Some k \<longrightarrow>
           con_live l k \<and> con_hook l k = Some r \<and> con_request l k = r_req x)
     \<and> (\<forall>q. r_req x = Some q \<longrightarrow> req_live l q \<and> req_con l q = r_con x
           \<and> req_arg l q = Some r \<and> (\<forall>h. req_hook l q h = Some r))"

definition rcon :: "(addr \<Rightarrow> client_req option) \<Rightarrow> addr \<Rightarrow> addr option" where
  "rcon H r = (case H r of None \<Rightarrow> None | Some x \<Rightarrow> r_con x)"

definition rreq :: "(addr \<Rightarrow> client_req option) \<Rightarrow> addr \<Rightarrow> addr option" where
  "rreq H r = (case H r of None \<Rightarrow> None | Some x \<Rightarrow> r_req x)"

definition con_owned :: "addr set \<Rightarrow> (addr \<Rightarrow> client_req option) \<Rightarrow> addr \<Rightarrow> bool" where
  "con_owned K H k \<longleftrightarrow> k \<in> K \<or> (\<exists>r. rcon H r = Some k)"

definition req_owned ::
  "addr set \<Rightarrow> log \<Rightarrow> (addr \<Rightarrow> client_req option) \<Rightarrow> addr \<Rightarrow> bool" where
  "req_owned K l H q \<longleftrightarrow> (\<exists>k \<in> K. con_request l k = Some q) \<or> (\<exists>r. rreq H r = Some q)"

definition limbo_ok :: "addr set \<Rightarrow> log \<Rightarrow> (addr \<Rightarrow> client_req option) \<Rightarrow> bool" where
  "limbo_ok K l H \<longleftrightarrow> (\<forall>k \<in> K. con_live l k \<and> (\<forall>r. rcon H r \<noteq> Some k)
     \<and> (\<forall>q. con_request l k = Some q \<longrightarrow> req_live l q \<and> req_con l q = Some k))"

definition clt_inv :: "addr set \<Rightarrow> 'a clt_world_scheme \<Rightarrow> bool" where
  "clt_inv K w \<longleftrightarrow> legal (calls w)
     \<and> (\<forall>r x. creqs w r = Some x \<longrightarrow> creq_ok (calls w) r x \<and> r < next_addr w)
     \<and> (\<forall>k. con_live (calls w) k \<longrightarrow> k < next_addr w \<and> con_owned K (creqs w) k)
     \<and> (\<forall>q. req_live (calls w) q \<longrightarrow> q < next_addr w \<and> req_owned K (calls w) (creqs w) q)
     \<and> (\<forall>r. ev_live (calls w) (Ev_timeout r) \<longrightarrow> creqs w r \<noteq> None)
     \<and> limbo_ok K (calls w) (creqs w)"

lemmas inv_defs = clt_inv_def creq_ok_def con_owned_def req_owned_def limbo_ok_def

lemma rcon_upd [simp]: "rcon (H(r \<mapsto> y)) = (rcon H)(r := r_con y)"
  "rcon (H(r := None)) = (rcon H)(r := None)"
  by (auto simp: rcon_def)

lemma rreq_upd [simp]: "rreq (H(r \<mapsto> y)) = (rreq H)(r := r_req y)"
  "rreq (H(r := None)) = (rreq H)(r := None)"
  by (auto simp: rreq_def)

lemma rcon_eqD: "rcon H r = Some k \<Longrightarrow> \<exists>x. H r = Some x \<and> r_con x = Some k"
  by (simp add: rcon_def split: option.splits)

lemma rreq_eqD: "rreq H r = Some q \<Longrightarrow> \<exists>x. H r = Some x \<and> r_req x = Some q"
  by (simp add: rreq_def split: option.splits)

lemma rcon_Some [simp]: "H r = Some x \<Longrightarrow> rcon H r = r_con x"
  "H r = Some x \<Longrightarrow> rreq H r = r_req x"
  by (simp_all add: rcon_def rreq_def)

section \<open>Steps that \<open>clt.c\<close> does not see\<close>

lemma proj_eq_refl [simp]: "proj_eq l l"
  by (simp add: proj_eq_def)

lemma proj_eq_trans: "proj_eq l l' \<Longrightarrow> proj_eq l' l'' \<Longrightarrow> proj_eq l l''"
  by (simp add: proj_eq_def)

lemma quiet_refl [simp]: "quiet w w"
  by (simp add: quiet_def)

lemma quiet_trans: "quiet w w' \<Longrightarrow> quiet w' w'' \<Longrightarrow> quiet w w''"
  by (auto simp: quiet_def intro: proj_eq_trans)

lemma owner_same_refl [simp]: "owner_same w w"
  by (simp add: owner_same_def)

lemma owner_same_trans: "owner_same w w' \<Longrightarrow> owner_same w' w'' \<Longrightarrow> owner_same w w''"
  by (auto simp: owner_same_def)

lemma quietD:
  assumes "quiet w w'"
  shows "creqs w' = creqs w" "next_addr w' = next_addr w"
    "con_live (calls w') = con_live (calls w)" "con_hook (calls w') = con_hook (calls w)"
    "con_request (calls w') = con_request (calls w)" "req_con (calls w') = req_con (calls w)"
    "req_live (calls w') = req_live (calls w)" "req_hook (calls w') = req_hook (calls w)"
    "req_arg (calls w') = req_arg (calls w)"
    "ev_live (calls w') (Ev_timeout r) = ev_live (calls w) (Ev_timeout r)"
    "legal (calls w) \<Longrightarrow> legal (calls w')"
  using assms by (simp_all add: quiet_def proj_eq_def)

lemma clt_inv_quiet: "quiet w w' \<Longrightarrow> clt_inv K w \<Longrightarrow> clt_inv K w'"
  by (simp add: inv_defs quietD)

fun event_call :: "libcall \<Rightarrow> bool" where
  \<comment> \<open>calls about events that keep them allocated\<close>
  "event_call (Event_add e tv) = True"
| "event_call (Event_active e) = True"
| "event_call (Event_del e) = True"
| "event_call (Fired e) = True"
| "event_call c = False"

lemma proj_eq_event: "event_call c \<Longrightarrow> legal_call l c \<Longrightarrow> proj_eq l (c # l)"
  by (cases c) (auto simp: proj_eq_def fun_eq_iff)

lemma quiet_event [intro]:
  "event_call c \<Longrightarrow> legal_call (calls w) c \<Longrightarrow> quiet w (emit c w)"
  by (simp add: quiet_def proj_eq_event)

lemma proj_eq_access:
  "req_live l q \<Longrightarrow> proj_eq l (Request_access q # l)"
  "req_live l q \<Longrightarrow> proj_eq l (Request_drain q n # l)"
  "con_live l k \<Longrightarrow> proj_eq l (Connection_access k # l)"
  by (simp_all add: proj_eq_def fun_eq_iff)

lemma quiet_access [intro]:
  "req_live (calls w) q \<Longrightarrow> quiet w (emit (Request_access q) w)"
  "req_live (calls w) q \<Longrightarrow> quiet w (emit (Request_drain q n) w)"
  "con_live (calls w) k \<Longrightarrow> quiet w (emit (Connection_access k) w)"
  by (simp_all add: quiet_def proj_eq_access)

lemma set_creq_sel [simp]:
  "creqs (set_creq r x w) = (creqs w)(r \<mapsto> x)" "calls (set_creq r x w) = calls w"
  "next_addr (set_creq r x w) = next_addr w"
  "clt_world.more (set_creq r x w) = clt_world.more w"
  by (simp_all add: set_creq_def)

lemma emit_more_sel [simp]: "clt_world.more (emit c w) = clt_world.more w"
  by (simp add: emit_def)

fun own_call :: "libcall \<Rightarrow> bool" where
  \<comment> \<open>calls that do not concern the events of the owner\<close>
  "own_call (Event_new e) = own_ev e"
| "own_call (Event_add e tv) = own_ev e"
| "own_call (Event_active e) = own_ev e"
| "own_call (Event_del e) = own_ev e"
| "own_call (Event_free e) = own_ev e"
| "own_call (Fired e) = own_ev e"
| "own_call c = True"

lemma own_call_ev:
  assumes "own_call c" "\<not> own_ev e"
  shows "ev_live (c # l) e = ev_live l e" "ev_pending (c # l) e = ev_pending l e"
  using assms by (cases c; auto)+

lemma owner_same_emit [intro]: "own_call c \<Longrightarrow> owner_same w (emit c w)"
  unfolding owner_same_def using own_call_ev by simp

lemma own_ev_timeout [simp]: "own_ev (Ev_timeout r)"
  by (simp add: own_ev_def)

lemma owner_same_set_creq [intro]:
  "creqs w r = Some x \<Longrightarrow> r_cb y = r_cb x \<Longrightarrow> r_cbdata y = r_cbdata x
     \<Longrightarrow> owner_same w (set_creq r y w)"
  by (simp add: owner_same_def)

section \<open>Facts the invariant gives\<close>

lemma clt_invD:
  assumes "clt_inv K w" "creqs w r = Some x"
  shows "r_ev_timeout x = Some (Ev_timeout r)" "ev_live (calls w) (Ev_timeout r)"
    "\<exists>h. r_host_hdr x = Some h" "r_con x = None \<Longrightarrow> r_req x = None" "r < next_addr w"
    "r_con x = Some k \<Longrightarrow> con_live (calls w) k" "r_con x = Some k \<Longrightarrow> con_hook (calls w) k = Some r"
    "r_con x = Some k \<Longrightarrow> con_request (calls w) k = r_req x"
    "r_req x = Some q \<Longrightarrow> req_live (calls w) q" "r_req x = Some q \<Longrightarrow> req_con (calls w) q = r_con x"
    "r_req x = Some q \<Longrightarrow> req_arg (calls w) q = Some r"
    "r_req x = Some q \<Longrightarrow> req_hook (calls w) q h = Some r" "r_cb x"
  using assms by (auto simp: clt_inv_def creq_ok_def)

lemma rcon_hook: "clt_inv K w \<Longrightarrow> rcon (creqs w) r = Some k \<Longrightarrow> con_hook (calls w) k = Some r"
  by (auto dest!: rcon_eqD simp: clt_invD)

lemma rreq_arg: "clt_inv K w \<Longrightarrow> rreq (creqs w) r = Some q \<Longrightarrow> req_arg (calls w) q = Some r"
  by (auto dest!: rreq_eqD simp: clt_invD)

text \<open>A connection and a request belong to one block only.\<close>

lemma con_owner_unique:
  "clt_inv K w \<Longrightarrow> creqs w r = Some x \<Longrightarrow> creqs w r' = Some x' \<Longrightarrow>
     r_con x = Some k \<Longrightarrow> r_con x' = Some k \<Longrightarrow> r = r'"
  by (metis clt_invD(7) option.inject)

lemma req_owner_unique:
  "clt_inv K w \<Longrightarrow> creqs w r = Some x \<Longrightarrow> creqs w r' = Some x' \<Longrightarrow>
     r_req x = Some q \<Longrightarrow> r_req x' = Some q \<Longrightarrow> r = r'"
  by (metis clt_invD(11) option.inject)

lemma hook_owner:
  assumes "clt_inv {} w" "req_live (calls w) q"
    "req_hook (calls w) q h = Some r \<or> req_arg (calls w) q = Some r"
  shows "\<exists>x k. creqs w r = Some x \<and> r_req x = Some q \<and> r_con x = Some k"
proof -
  obtain r' x where x: "creqs w r' = Some x" "r_req x = Some q"
    using assms by (auto simp: clt_inv_def req_owned_def dest!: rreq_eqD)
  then have "r' = r" using assms clt_invD(11,12) [OF assms(1) x(1)] by fastforce
  then show ?thesis using x clt_invD(4) [OF assms(1) x(1)] by (cases "r_con x") auto
qed

lemma con_hook_owner:
  assumes "clt_inv {} w" "con_live (calls w) k" "con_hook (calls w) k = Some r"
  shows "\<exists>x. creqs w r = Some x \<and> r_con x = Some k"
proof -
  obtain r' x where x: "creqs w r' = Some x" "r_con x = Some k"
    using assms by (auto simp: clt_inv_def con_owned_def dest!: rcon_eqD)
  then have "r' = r" using assms clt_invD(7) [OF assms(1) x(1)] by fastforce
  then show ?thesis using x by blast
qed


section \<open>Transfers of ownership\<close>

lemma clt_invI:
  assumes "legal (calls w)"
    and "\<And>r x. creqs w r = Some x \<Longrightarrow> creq_ok (calls w) r x \<and> r < next_addr w"
    and "\<And>k. con_live (calls w) k \<Longrightarrow> k < next_addr w \<and> con_owned K (creqs w) k"
    and "\<And>q. req_live (calls w) q \<Longrightarrow> q < next_addr w \<and> req_owned K (calls w) (creqs w) q"
    and "\<And>r. ev_live (calls w) (Ev_timeout r) \<Longrightarrow> creqs w r \<noteq> None"
    and "limbo_ok K (calls w) (creqs w)"
  shows "clt_inv K w"
  using assms unfolding clt_inv_def by blast

lemma clt_inv_parts:
  assumes "clt_inv K w"
  shows "legal (calls w)" "creqs w r = Some x \<Longrightarrow> creq_ok (calls w) r x"
    "con_live (calls w) k \<Longrightarrow> k < next_addr w"
    "con_live (calls w) k \<Longrightarrow> con_owned K (creqs w) k"
    "req_live (calls w) q \<Longrightarrow> q < next_addr w"
    "req_live (calls w) q \<Longrightarrow> req_owned K (calls w) (creqs w) q"
    "ev_live (calls w) (Ev_timeout r) \<Longrightarrow> creqs w r \<noteq> None"
    "limbo_ok K (calls w) (creqs w)"
  using assms unfolding clt_inv_def by blast+

lemma con_owned_upd:
  "con_owned K H k \<Longrightarrow> rcon H r \<noteq> Some k \<Longrightarrow> con_owned K (H(r := v)) k"
  "con_owned K H k \<Longrightarrow> r_con y = Some k \<Longrightarrow> con_owned K (H(r \<mapsto> y)) k"
  unfolding con_owned_def rcon_def by (metis fun_upd_other, metis fun_upd_same option.simps(5))

lemma req_owned_upd:
  "req_owned K l H q \<Longrightarrow> rreq H r \<noteq> Some q \<Longrightarrow> req_owned K l (H(r := v)) q"
  "req_owned K l H q \<Longrightarrow> r_req y = Some q \<Longrightarrow> req_owned K l (H(r \<mapsto> y)) q"
  unfolding req_owned_def rreq_def by (metis fun_upd_other, metis fun_upd_same option.simps(5))

lemma owned_mono:
  "con_owned K H k \<Longrightarrow> K \<subseteq> K' \<Longrightarrow> con_owned K' H k"
  "req_owned K l H q \<Longrightarrow> K \<subseteq> K' \<Longrightarrow> req_owned K' l H q"
  by (auto simp: con_owned_def req_owned_def)

lemma upd_same: "f r = v \<Longrightarrow> f(r := v) = f"
  by auto

lemma creq_rewrite:
  assumes inv: "clt_inv K w" and x: "creqs w r = Some x"
    and y: "r_con y = r_con x" "r_req y = r_req x"
    "r_ev_timeout y = r_ev_timeout x" "r_host_hdr y = r_host_hdr x" "r_cb y = r_cb x"
  shows "clt_inv K (set_creq r y w)"
proof (rule clt_invI)
  have [simp]: "(rcon (creqs w))(r := r_con x) = rcon (creqs w)"
    "(rreq (creqs w))(r := r_req x) = rreq (creqs w)"
    using x by (simp_all add: upd_same)
  show "creq_ok (calls (set_creq r y w)) r' x' \<and> r' < next_addr (set_creq r y w)"
    if "creqs (set_creq r y w) r' = Some x'" for r' x'
    using that clt_inv_parts(2) [OF inv x] clt_inv_parts(2) [OF inv, of r' x']
      clt_invD(5) [OF inv, of r' x'] clt_invD(5) [OF inv x] y
    by (cases "r' = r") (simp_all add: creq_ok_def)
  show "limbo_ok K (calls (set_creq r y w)) (creqs (set_creq r y w))"
    using clt_inv_parts(8) [OF inv] by (simp add: limbo_ok_def y)
  show "con_live (calls (set_creq r y w)) k \<Longrightarrow>
      k < next_addr (set_creq r y w) \<and> con_owned K (creqs (set_creq r y w)) k" for k
    using clt_inv_parts(3,4) [OF inv, of k] by (simp add: con_owned_def y)
  show "req_live (calls (set_creq r y w)) q \<Longrightarrow> q < next_addr (set_creq r y w)
      \<and> req_owned K (calls (set_creq r y w)) (creqs (set_creq r y w)) q" for q
    using clt_inv_parts(5,6) [OF inv, of q] by (simp add: req_owned_def y)
qed (use clt_inv_parts(1,7) [OF inv] in simp_all)

lemma con_release:
  assumes inv: "clt_inv K w" and x: "creqs w r = Some x" "r_con x = Some k"
  shows "clt_inv (insert k K) (set_creq r (x\<lparr>r_con := None, r_req := None\<rparr>) w)"
    (is "clt_inv ?K (set_creq r ?y w)")
proof (rule clt_invI)
  have u: "r' = r" if "rcon (creqs w) r' = Some k" for r'
    using rcon_hook [OF inv that] clt_invD(7) [OF inv x] by simp
  have q: "con_request (calls w) k = r_req x" using clt_invD(8) [OF inv x] .
  show "legal (calls (set_creq r ?y w))" using clt_inv_parts(1) [OF inv] by simp
  show "creq_ok (calls (set_creq r ?y w)) r' x' \<and> r' < next_addr (set_creq r ?y w)"
    if "creqs (set_creq r ?y w) r' = Some x'" for r' x'
    using that clt_inv_parts(2) [OF inv x(1)] clt_inv_parts(2) [OF inv, of r' x']
      clt_invD(5) [OF inv, of r' x'] clt_invD(5) [OF inv x(1)]
    by (cases "r' = r") (auto simp add: creq_ok_def)
  show "k' < next_addr (set_creq r ?y w) \<and> con_owned ?K (creqs (set_creq r ?y w)) k'"
    if "con_live (calls (set_creq r ?y w)) k'" for k'
    using that clt_inv_parts(3,4) [OF inv, of k'] x con_owned_upd(1) [of K "creqs w" k' r "Some ?y"]
    by (cases "k' = k") (auto simp: con_owned_def)
  show "q' < next_addr (set_creq r ?y w) \<and>
      req_owned ?K (calls (set_creq r ?y w)) (creqs (set_creq r ?y w)) q'"
    if "req_live (calls (set_creq r ?y w)) q'" for q'
    using that clt_inv_parts(5,6) [OF inv, of q'] x q
      req_owned_upd(1) [of K "calls w" "creqs w" q' r "Some ?y"]
    by (cases "r_req x = Some q'") (auto simp: req_owned_def)
  show "creqs (set_creq r ?y w) r' \<noteq> None"
    if "ev_live (calls (set_creq r ?y w)) (Ev_timeout r')" for r'
    using that clt_inv_parts(7) [OF inv, of r'] by simp
  show "limbo_ok ?K (calls (set_creq r ?y w)) (creqs (set_creq r ?y w))"
    unfolding limbo_ok_def
  proof (rule ballI)
    fix k' assume "k' \<in> ?K"
    then consider "k' = k" | "k' \<in> K" "k' \<noteq> k" by blast
    then show "con_live (calls (set_creq r ?y w)) k'
        \<and> (\<forall>r'. rcon (creqs (set_creq r ?y w)) r' \<noteq> Some k')
        \<and> (\<forall>q. con_request (calls (set_creq r ?y w)) k' = Some q \<longrightarrow>
             req_live (calls (set_creq r ?y w)) q \<and> req_con (calls (set_creq r ?y w)) q = Some k')"
    proof cases
      case 1
      then show ?thesis
        using u q clt_invD(6) [OF inv x] clt_invD(9,10) [OF inv x(1)] x(2) by auto
    next
      case 2
      then show ?thesis
        using clt_inv_parts(8) [OF inv] by (simp add: limbo_ok_def)
    qed
  qed
qed

lemma limboD:
  assumes inv: "clt_inv K w" and k: "k \<in> K"
  shows "con_live (calls w) k" "rcon (creqs w) r \<noteq> Some k"
    "con_request (calls w) k = Some q \<Longrightarrow> req_live (calls w) q"
    "con_request (calls w) k = Some q \<Longrightarrow> req_con (calls w) q = Some k"
    "con_request (calls w) k = Some q \<Longrightarrow> rreq (creqs w) r \<noteq> Some q"
proof -
  note limbo = bspec [OF clt_inv_parts(8) [OF inv, unfolded limbo_ok_def] k]
  show "con_live (calls w) k" "rcon (creqs w) r \<noteq> Some k" using limbo by auto
  show "con_request (calls w) k = Some q \<Longrightarrow> req_live (calls w) q" using limbo by auto
  show rc: "con_request (calls w) k = Some q \<Longrightarrow> req_con (calls w) q = Some k" using limbo by auto
  assume q: "con_request (calls w) k = Some q"
  show "rreq (creqs w) r \<noteq> Some q"
  proof
    assume "rreq (creqs w) r = Some q"
    then obtain x where x: "creqs w r = Some x" "r_req x = Some q" by (auto dest!: rreq_eqD)
    then have "rcon (creqs w) r = Some k" using clt_invD(10) [OF inv x] rc q by simp
    then show False using limbo by auto
  qed
qed

lemma con_unset:
  assumes inv: "clt_inv K w" and k: "k \<in> K"
  shows "clt_inv K (emit (Connection_unset_hooks k) w)"
proof (rule clt_invI)
  show "creq_ok (calls (emit (Connection_unset_hooks k) w)) r x
      \<and> r < next_addr (emit (Connection_unset_hooks k) w)"
    if "creqs (emit (Connection_unset_hooks k) w) r = Some x" for r x
    using clt_inv_parts(2) [OF inv, of r x] clt_invD(5) [OF inv, of r x] that
      limboD(2) [OF inv k, of r]
    by (auto simp: creq_ok_def)
  show "limbo_ok K (calls (emit (Connection_unset_hooks k) w))
      (creqs (emit (Connection_unset_hooks k) w))"
    using clt_inv_parts(8) [OF inv] by (simp add: limbo_ok_def)
qed (use clt_inv_parts [OF inv] limboD(1) [OF inv k] in \<open>simp_all add: req_owned_def\<close>)

lemma limbo_req_unset:
  assumes inv: "clt_inv K w" and k: "k \<in> K" "con_request (calls w) k = Some q"
  shows "clt_inv K (emit (Request_unset_hooks q) w)"
proof (rule clt_invI)
  show "creq_ok (calls (emit (Request_unset_hooks q) w)) r x
      \<and> r < next_addr (emit (Request_unset_hooks q) w)"
    if "creqs (emit (Request_unset_hooks q) w) r = Some x" for r x
    using clt_inv_parts(2) [OF inv, of r x] clt_invD(5) [OF inv, of r x] that
      limboD(5) [OF inv k, of r]
    by (auto simp: creq_ok_def)
  show "limbo_ok K (calls (emit (Request_unset_hooks q) w))
      (creqs (emit (Request_unset_hooks q) w))"
    using clt_inv_parts(8) [OF inv] by (simp add: limbo_ok_def)
qed (use clt_inv_parts [OF inv] limboD(3) [OF inv k] in \<open>simp_all add: req_owned_def\<close>)

lemma limbo_con_distinct:
  assumes inv: "clt_inv K w" and k: "k \<in> K" "k' \<in> K" "k' \<noteq> k"
    and q: "con_request (calls w) k = Some q"
  shows "con_request (calls w) k' \<noteq> Some q"
  using limboD(4) [OF inv k(1) q] limboD(4) [OF inv k(2), of q] k(3) by auto

text \<open>The library releases a connection in limbo, with the request on it.\<close>

lemma con_free_gen:
  assumes inv: "clt_inv (insert k K) w" and k: "k \<notin> K"
    and c: "c = Connection_free k \<or> c = Lib_connection_freed k"
  shows "clt_inv K (emit c w)"
proof (rule clt_invI)
  note D = limboD [OF inv, of k, simplified]
  have leg: "legal_call (calls w) c"
    using c D(1) D(3) by (auto split: option.splits)
  show "legal (calls (emit c w))" using leg clt_inv_parts(1) [OF inv] by simp
  have cl: "con_live (calls (emit c w)) k' \<longleftrightarrow> k' \<noteq> k \<and> con_live (calls w) k'"
    and ch: "con_hook (calls (emit c w)) k' = con_hook (calls w) k'"
    and cr: "con_request (calls (emit c w)) k' = con_request (calls w) k'"
    and ql: "req_live (calls (emit c w)) q \<longleftrightarrow> con_request (calls w) k \<noteq> Some q \<and> req_live (calls w) q"
    and rest: "req_con (calls (emit c w)) q = req_con (calls w) q"
      "req_arg (calls (emit c w)) q = req_arg (calls w) q"
      "req_hook (calls (emit c w)) q h = req_hook (calls w) q h"
      "ev_live (calls (emit c w)) e = ev_live (calls w) e" for k' q h e
    using c by auto
  show "creq_ok (calls (emit c w)) r x \<and> r < next_addr (emit c w)"
    if "creqs (emit c w) r = Some x" for r x
    using clt_inv_parts(2) [OF inv, of r x] clt_invD(5) [OF inv, of r x] that D(2) [of r]
      D(5) [of _ r]
    by (auto simp add: creq_ok_def cl ch cr ql rest simp del: emit_sel(1))
  show "k' < next_addr (emit c w) \<and> con_owned K (creqs (emit c w)) k'"
    if "con_live (calls (emit c w)) k'" for k'
    using clt_inv_parts(3,4) [OF inv, of k'] that by (simp add: cl con_owned_def del: emit_sel(1))
  show "q < next_addr (emit c w) \<and> req_owned K (calls (emit c w)) (creqs (emit c w)) q"
    if "req_live (calls (emit c w)) q" for q
    using clt_inv_parts(5,6) [OF inv, of q] that
    by (simp add: ql cr req_owned_def del: emit_sel(1))
  show "creqs (emit c w) r \<noteq> None" if "ev_live (calls (emit c w)) (Ev_timeout r)" for r
    using clt_inv_parts(7) [OF inv, of r] that by (simp add: rest del: emit_sel(1))
  show "limbo_ok K (calls (emit c w)) (creqs (emit c w))"
    unfolding limbo_ok_def
  proof (intro ballI conjI allI impI)
    fix k' assume k': "k' \<in> K"
    then have k'': "k' \<in> insert k K" "k' \<noteq> k" using k by auto
    note D' = limboD [OF inv k''(1)]
    show "con_live (calls (emit c w)) k'" using D'(1) k'' by (simp add: cl del: emit_sel(1))
    show "rcon (creqs (emit c w)) r \<noteq> Some k'" for r using D'(2) by simp
    fix q assume "con_request (calls (emit c w)) k' = Some q"
    then have q: "con_request (calls w) k' = Some q" by (simp add: cr del: emit_sel(1))
    then show "req_con (calls (emit c w)) q = Some k'"
      using D'(4) by (simp add: rest del: emit_sel(1))
    have "con_request (calls w) k \<noteq> Some q"
      using limbo_con_distinct [OF inv k''(1) _ _ q, of k] k'' by auto
    then show "req_live (calls (emit c w)) q" using D'(3) q by (simp add: ql del: emit_sel(1))
  qed
qed

lemmas con_free = con_free_gen [OF _ _ disjI1 [OF refl]] con_free_gen [OF _ _ disjI2 [OF refl]]


section \<open>Changes local to one block\<close>

text \<open>
  A step that changes the block \<open>r\<close> (or removes it) and, in the log, only
  connections of \<open>Kr\<close> and requests of \<open>Qr\<close>, which are fresh or belong to
  \<open>r\<close>.
\<close>

lemma clt_inv_local:
  assumes inv: "clt_inv K w" and H: "creqs w' = (creqs w)(r := v)"
    and nx: "next_addr w \<le> next_addr w'" and leg: "legal (calls w')"
    and v: "\<And>y. v = Some y \<Longrightarrow> creq_ok (calls w') r y \<and> r < next_addr w'"
    and kout: "\<And>k. k \<notin> Kr \<Longrightarrow> con_live (calls w') k = con_live (calls w) k
        \<and> (con_live (calls w) k \<longrightarrow> con_hook (calls w') k = con_hook (calls w) k
              \<and> con_request (calls w') k = con_request (calls w) k)"
    and qout: "\<And>q. q \<notin> Qr \<Longrightarrow> req_live (calls w') q = req_live (calls w) q
        \<and> (req_live (calls w) q \<longrightarrow> req_con (calls w') q = req_con (calls w) q
              \<and> req_arg (calls w') q = req_arg (calls w) q
              \<and> req_hook (calls w') q = req_hook (calls w) q)"
    and kin: "\<And>k. k \<in> Kr \<Longrightarrow> con_live (calls w') k \<Longrightarrow>
        k < next_addr w' \<and> (\<exists>y. v = Some y \<and> r_con y = Some k)"
    and qin: "\<And>q. q \<in> Qr \<Longrightarrow> req_live (calls w') q \<Longrightarrow>
        q < next_addr w' \<and> (\<exists>y. v = Some y \<and> r_req y = Some q)"
    and Kr: "\<And>k. k \<in> Kr \<Longrightarrow> k \<notin> K \<and> (\<forall>r'. r' \<noteq> r \<longrightarrow> rcon (creqs w) r' \<noteq> Some k)"
    and Qr: "\<And>q. q \<in> Qr \<Longrightarrow> (\<forall>r'. r' \<noteq> r \<longrightarrow> rreq (creqs w) r' \<noteq> Some q)
        \<and> (\<forall>k \<in> K. con_request (calls w) k \<noteq> Some q)"
    and cover: "\<And>k. rcon (creqs w) r = Some k \<Longrightarrow> k \<in> Kr"
      "\<And>q. rreq (creqs w) r = Some q \<Longrightarrow> q \<in> Qr"
    and ev: "\<And>r'. r' \<noteq> r \<Longrightarrow>
        ev_live (calls w') (Ev_timeout r') = ev_live (calls w) (Ev_timeout r')"
      "v = None \<Longrightarrow> \<not> ev_live (calls w') (Ev_timeout r)"
    and vK: "\<And>y k. v = Some y \<Longrightarrow> r_con y = Some k \<Longrightarrow> k \<in> Kr"
  shows "clt_inv K w'"
proof (rule clt_invI)
  show "legal (calls w')" by (rule leg)
  show "creq_ok (calls w') r' x \<and> r' < next_addr w'" if x: "creqs w' r' = Some x" for r' x
  proof (cases "r' = r")
    case True
    then show ?thesis using v x H by simp
  next
    case False
    then have x': "creqs w r' = Some x" using x H by simp
    have k: "r_con x = Some k \<Longrightarrow> k \<notin> Kr" for k
      using Kr [of k] False rcon_Some(1) [of "creqs w", OF x'] by metis
    have q: "r_req x = Some q \<Longrightarrow> q \<notin> Qr" for q
      using Qr [of q] False rcon_Some(2) [of "creqs w", OF x'] by metis
    have "creq_ok (calls w) r' x" "r' < next_addr w"
      using clt_inv_parts(2) [OF inv x'] clt_invD(5) [OF inv x'] by auto
    then show ?thesis
      using k q kout qout ev(1) [OF False] nx by (auto simp: creq_ok_def)
  qed
  show "k < next_addr w' \<and> con_owned K (creqs w') k" if k: "con_live (calls w') k" for k
  proof (cases "k \<in> Kr")
    case True
    then show ?thesis using kin [OF True k] H by (auto simp: con_owned_def)
  next
    case False
    then have "con_live (calls w) k" "rcon (creqs w) r \<noteq> Some k" using k kout cover by auto
    then show ?thesis
      using clt_inv_parts(3,4) [OF inv] con_owned_upd(1) [of K "creqs w" k r v] H nx
      by fastforce
  qed
  show "q < next_addr w' \<and> req_owned K (calls w') (creqs w') q" if q: "req_live (calls w') q" for q
  proof (cases "q \<in> Qr")
    case True
    then show ?thesis using qin [OF True q] H by (auto simp: req_owned_def)
  next
    case False
    then have "req_live (calls w) q" "rreq (creqs w) r \<noteq> Some q" using q qout cover by auto
    then have "req_owned K (calls w) ((creqs w)(r := v)) q" "q < next_addr w"
      using clt_inv_parts(5,6) [OF inv] req_owned_upd(1) by blast+
    moreover have "con_request (calls w') k = con_request (calls w) k" if "k \<in> K" for k
      using kout Kr limboD(1) [OF inv] that by blast
    ultimately show ?thesis using H nx by (auto simp: req_owned_def)
  qed
  show "creqs w' r' \<noteq> None" if "ev_live (calls w') (Ev_timeout r')" for r'
    using that ev clt_inv_parts(7) [OF inv, of r'] H by (cases "r' = r") auto
  show "limbo_ok K (calls w') (creqs w')"
    unfolding limbo_ok_def
  proof (intro ballI conjI allI impI)
    fix k assume k: "k \<in> K"
    note D = limboD [OF inv k]
    have n: "k \<notin> Kr" using Kr k by blast
    show "con_live (calls w') k" using D(1) kout [OF n] by simp
    show "rcon (creqs w') r' \<noteq> Some k" for r'
      using D(2) [of r'] H vK [of _ k] n by (cases v) auto
    fix q assume "con_request (calls w') k = Some q"
    then have q: "con_request (calls w) k = Some q" "q \<notin> Qr"
      using kout [OF n] D(1) Qr k by auto
    then show "req_live (calls w') q" "req_con (calls w') q = Some k"
      using D(3,4) qout by auto
  qed
qed

lemma own_con:
  assumes inv: "clt_inv K w" and x: "rcon (creqs w) r = Some k"
  shows "k \<notin> K \<and> (\<forall>r'. r' \<noteq> r \<longrightarrow> rcon (creqs w) r' \<noteq> Some k)"
  using limboD(2) [OF inv, of k r] rcon_hook [OF inv] x by (metis option.inject)

lemma own_req:
  assumes inv: "clt_inv K w" and x: "rreq (creqs w) r = Some q"
  shows "(\<forall>r'. r' \<noteq> r \<longrightarrow> rreq (creqs w) r' \<noteq> Some q)
        \<and> (\<forall>k \<in> K. con_request (calls w) k \<noteq> Some q)"
  using limboD(5) [OF inv, of _ q r] rreq_arg [OF inv] x by (metis option.inject)

lemma req_con_request:
  assumes inv: "clt_inv K w" and q: "req_live (calls w) q" "req_con (calls w) q = Some k"
  shows "con_request (calls w) k = Some q"
proof -
  from clt_inv_parts(6) [OF inv q(1)] consider
    k' where "k' \<in> K" "con_request (calls w) k' = Some q"
    | r x where "creqs w r = Some x" "r_req x = Some q"
    by (auto simp: req_owned_def dest!: rreq_eqD)
  then show ?thesis
  proof cases
    case 1
    then show ?thesis using limboD(4) [OF inv 1] q by simp
  next
    case 2
    then show ?thesis using clt_invD(8,10) [OF inv 2(1)] q by auto
  qed
qed

lemma fresh_con:
  assumes inv: "clt_inv K w" and k: "next_addr w \<le> k"
  shows "k \<notin> K \<and> rcon (creqs w) r' \<noteq> Some k" "\<not> con_live (calls w) k"
proof -
  show n: "\<not> con_live (calls w) k" using clt_inv_parts(3) [OF inv, of k] k by auto
  show "k \<notin> K \<and> rcon (creqs w) r' \<noteq> Some k"
    using n limboD(1) [OF inv, of k] clt_invD(6) [OF inv, of r' _ k] by (auto dest!: rcon_eqD)
qed

lemma fresh_req:
  assumes inv: "clt_inv K w" and q: "next_addr w \<le> q"
  shows "rreq (creqs w) r' \<noteq> Some q" "k \<in> K \<Longrightarrow> con_request (calls w) k \<noteq> Some q"
    "\<not> req_live (calls w) q"
proof -
  show n: "\<not> req_live (calls w) q" using clt_inv_parts(5) [OF inv, of q] q by auto
  show "rreq (creqs w) r' \<noteq> Some q"
    using n clt_invD(9) [OF inv, of r' _ q] by (auto dest!: rreq_eqD)
  show "k \<in> K \<Longrightarrow> con_request (calls w) k \<noteq> Some q"
    using n limboD(3) [OF inv, of k q] by auto
qed

lemma fresh_creq: "clt_inv K w \<Longrightarrow> next_addr w \<le> r \<Longrightarrow> creqs w r = None"
  using clt_invD(5) [of K w r] by (cases "creqs w r") fastforce+

lemma con_request_owner:
  assumes inv: "clt_inv K w" and k: "con_live (calls w) k" "con_request (calls w) k = Some q"
    and r: "rreq (creqs w) r = Some q"
  shows "rcon (creqs w) r = Some k"
proof -
  have nK: "k \<notin> K" using limboD(5) [OF inv _ k(2), of r] r by auto
  then obtain r' x where x: "creqs w r' = Some x" "r_con x = Some k"
    using clt_inv_parts(4) [OF inv k(1)] by (auto simp: con_owned_def dest!: rcon_eqD)
  then have "rreq (creqs w) r' = Some q" using clt_invD(8) [OF inv x] k by simp
  then have "r' = r" using rreq_arg [OF inv, of r q] rreq_arg [OF inv, of r' q] r by simp
  then show ?thesis using x by simp
qed

text \<open>The end of a request that completed: it is detached and released.\<close>

lemma req_release:
  assumes inv: "clt_inv K w" and x: "creqs w r = Some x" "r_con x = Some k" "r_req x = Some q"
    and l: "proj_eq (Connection_clear_request k # Request_unset_hooks q # calls w) l"
    and w': "creqs w' = (creqs w)(r \<mapsto> x\<lparr>r_req := None, r_uri := None\<rparr>)"
      "calls w' = Request_free q # Request_unset_hooks q # l" "next_addr w' = next_addr w"
  shows "clt_inv K w'"
proof (rule clt_inv_local [OF inv w'(1), where Kr = "{k}" and Qr = "{q}"])
  note D = clt_invD [OF inv x(1)]
  note L = l [unfolded proj_eq_def, THEN conjunct1]
  have live: "con_live (calls w) k" "req_live (calls w) q" "req_con (calls w) q = Some k"
    using D(6) [OF x(2)] D(9) [OF x(3)] D(10) [OF x(3)] x(2) by auto
  show "legal (calls w')"
    using l live clt_inv_parts(1) [OF inv] unfolding w' proj_eq_def by simp
  show "creq_ok (calls w') r y \<and> r < next_addr w'"
    if "Some (x\<lparr>r_req := None, r_uri := None\<rparr>) = Some y" for y
    using that l D(1-3,5,13) D(6-7) [OF x(2)] x unfolding w' proj_eq_def creq_ok_def by auto
  have qk: "con_request (calls w) k = Some q" using D(8) [OF x(2)] x by simp
  show "req_live (calls w') q' = req_live (calls w) q'
        \<and> (req_live (calls w) q' \<longrightarrow> req_con (calls w') q' = req_con (calls w) q'
              \<and> req_arg (calls w') q' = req_arg (calls w) q'
              \<and> req_hook (calls w') q' = req_hook (calls w) q')" if "q' \<notin> {q}" for q'
    using that l req_con_request [OF inv, of q' k] qk
    by (auto simp: w' proj_eq_def fun_eq_iff)
qed (use l x own_con [OF inv, of r k] own_req [OF inv, of r q] clt_inv_parts(3) [OF inv, of k]
     in \<open>auto simp: w' proj_eq_def fun_eq_iff\<close>)


text \<open>The library releases the request on its own account.\<close>

lemma req_lib_release:
  assumes inv: "clt_inv K w" and x: "creqs w r = Some x" "r_con x = Some k" "r_req x = Some q"
    and l: "proj_eq (Request_unset_hooks q # calls w) l"
    and w': "creqs w' = (creqs w)(r \<mapsto> x\<lparr>r_req := None, r_uri := None\<rparr>)"
      "calls w' = Lib_request_freed q # l" "next_addr w' = next_addr w"
  shows "clt_inv K w'"
proof (rule clt_inv_local [OF inv w'(1), where Kr = "{k}" and Qr = "{q}"])
  note D = clt_invD [OF inv x(1)]
  have live: "con_live (calls w) k" "req_live (calls w) q" "req_con (calls w) q = Some k"
    using D(6) [OF x(2)] D(9) [OF x(3)] D(10) [OF x(3)] x(2) by auto
  have qk: "con_request (calls w) k = Some q" using D(8) [OF x(2)] x by simp
  show "legal (calls w')"
    using l live clt_inv_parts(1) [OF inv] unfolding w' proj_eq_def by simp
  show "creq_ok (calls w') r y \<and> r < next_addr w'"
    if "Some (x\<lparr>r_req := None, r_uri := None\<rparr>) = Some y" for y
    using that l D(1-3,5,13) D(6-7) [OF x(2)] x qk unfolding w' proj_eq_def creq_ok_def by auto
  show "con_live (calls w') k' = con_live (calls w) k'
        \<and> (con_live (calls w) k' \<longrightarrow> con_hook (calls w') k' = con_hook (calls w) k'
              \<and> con_request (calls w') k' = con_request (calls w) k')" if "k' \<notin> {k}" for k'
    using that l con_request_owner [OF inv, of k' q r] x by (auto simp: w' proj_eq_def)
qed (use l x own_con [OF inv, of r k] own_req [OF inv, of r q] clt_inv_parts(3) [OF inv, of k]
     in \<open>auto simp: w' proj_eq_def fun_eq_iff\<close>)


text \<open>A new request is made on a connection that has none.\<close>

lemma req_make:
  assumes inv: "clt_inv K w" and x: "creqs w r = Some x" "r_con x = Some k" "r_req x = None"
    and q: "next_addr w \<le> q" "q < next_addr w'"
    and y: "r_con y = Some k" "r_req y = Some q" "r_ev_timeout y = r_ev_timeout x"
      "r_host_hdr y = r_host_hdr x" "r_cb y = r_cb x"
    and w': "creqs w' = (creqs w)(r \<mapsto> y)"
      "calls w' = Make_request k q u # rev (clt_req_hooks q r) @ rev (clt_req_headers q host ka)
         @ Request_new q r # calls w"
  shows "clt_inv K w'"
proof -
  note D = clt_invD [OF inv x(1)]
  have live: "con_live (calls w) k" "con_request (calls w) k = None"
    using D(6) [OF x(2)] D(8) [OF x(2)] x(3) by auto
  note fr = fresh_req [OF inv q(1)]
  have L: "con_live (calls w') = con_live (calls w)" "con_hook (calls w') = con_hook (calls w)"
    "con_request (calls w') = (con_request (calls w))(k := Some q)"
    "req_live (calls w') q' = (q' = q \<or> req_live (calls w) q')"
    "req_arg (calls w') = (req_arg (calls w))(q := Some r)"
    "q' \<noteq> q \<Longrightarrow> req_hook (calls w') q' = req_hook (calls w) q'"
    "req_con (calls w') q = Some k"
    "q' \<noteq> q \<Longrightarrow> req_con (calls w') q'
       = (if req_con (calls w) q' = Some k then None else req_con (calls w) q')"
    "ev_live (calls w') e = ev_live (calls w) e" for q' e
    unfolding w' clt_req_hooks_def clt_req_headers_def
    by (auto simp: fun_eq_iff)
  have hk: "req_hook (calls w') q h = Some r" for h
    unfolding w' clt_req_hooks_def clt_req_headers_def by (cases h) auto
  show ?thesis
  proof (rule clt_inv_local [OF inv w'(1), where Kr = "{k}" and Qr = "{q}"])
    show "legal (calls w')"
      using live clt_inv_parts(1) [OF inv] fr unfolding w'
      by (auto simp: clt_req_hooks_def clt_req_headers_def)
    show "creq_ok (calls w') r z \<and> r < next_addr w'" if "Some y = Some z" for z
      using that D(1-3,5,13) D(7) [OF x(2)] x y q live unfolding creq_ok_def by (auto simp: L hk)
    show "req_live (calls w') q' = req_live (calls w) q'
          \<and> (req_live (calls w) q' \<longrightarrow> req_con (calls w') q' = req_con (calls w) q'
                \<and> req_arg (calls w') q' = req_arg (calls w) q'
                \<and> req_hook (calls w') q' = req_hook (calls w) q')" if "q' \<notin> {q}" for q'
      using that req_con_request [OF inv, of q' k] live by (auto simp: L)
    show "k' < next_addr w' \<and> (\<exists>z. Some y = Some z \<and> r_con z = Some k')" if "k' \<in> {k}" for k'
      using that clt_inv_parts(3) [OF inv live(1)] y q by auto
  qed (use x y q own_con [OF inv, of r k] fr in \<open>auto simp: L\<close>)
qed

text \<open>A new block with its connection and its timer.\<close>

lemma con_make:
  assumes inv: "clt_inv K w" and r: "next_addr w \<le> r" "r < next_addr w'"
    and k: "next_addr w \<le> k" "k < next_addr w'" and nx: "next_addr w \<le> next_addr w'"
    and y: "r_con y = Some k" "r_req y = None" "r_ev_timeout y = Some (Ev_timeout r)"
      "r_host_hdr y \<noteq> None" "r_cb y"
    and w': "creqs w' = (creqs w)(r \<mapsto> y)"
      "calls w' = Event_new (Ev_timeout r) # Connection_set_timeouts k t1 t2
         # Connection_set_hook k r # Connection_new k # calls w"
  shows "clt_inv K w'"
proof (rule clt_inv_local [OF inv w'(1) nx, where Kr = "{k}" and Qr = "{}"])
  have nr: "creqs w r = None" by (rule fresh_creq [OF inv r(1)])
  then have ne: "\<not> ev_live (calls w) (Ev_timeout r)" using clt_inv_parts(7) [OF inv, of r] by auto
  note fr = fresh_con [OF inv k(1)]
  show "legal (calls w')" using clt_inv_parts(1) [OF inv] fr ne unfolding w' by simp
  show "creq_ok (calls w') r z \<and> r < next_addr w'" if "Some y = Some z" for z
    using that y r unfolding w' creq_ok_def by auto
  show "k' \<in> {k}" if "rcon (creqs w) r = Some k'" for k' using that nr by (simp add: rcon_def)
  show "q' \<in> {}" if "rreq (creqs w) r = Some q'" for q' using that nr by (simp add: rreq_def)
qed (use y k fresh_con [OF inv k(1)] in \<open>auto simp: w'\<close>)

text \<open>A block without a connection goes away with its timer.\<close>

lemma creq_drop:
  assumes inv: "clt_inv K w" and x: "creqs w r = Some x" "r_con x = None"
    and w': "creqs w' = (creqs w)(r := None)" "next_addr w' = next_addr w"
      "calls w' = Event_free (Ev_timeout r) # Event_del (Ev_timeout r) # calls w"
  shows "clt_inv K w'"
proof (rule clt_inv_local [OF inv w'(1), where Kr = "{}" and Qr = "{}"])
  note D = clt_invD [OF inv x(1)]
  show "legal (calls w')" using clt_inv_parts(1) [OF inv] D(2) unfolding w' by simp
  show "k' \<in> {}" if "rcon (creqs w) r = Some k'" for k' using that x by simp
  show "q' \<in> {}" if "rreq (creqs w) r = Some q'" for q' using that x D(4) by simp
qed (auto simp: w')

lemma clt_inv_next:
  assumes inv: "clt_inv K w" and w': "creqs w' = creqs w" "calls w' = calls w"
    "next_addr w \<le> next_addr w'"
  shows "clt_inv K w'"
  using inv w' unfolding clt_inv_def by (metis order_less_le_trans)

end
