(* ===== verification/Clt_Contract.thy ===== *)
theory Clt_Contract
  imports Clt_Safety
begin

text \<open>
  \<open>notify_client\<close> is the contract between \<open>clt.c\<close> and the owner of a
  connection: what the callback stored in a block may do when it is notified,
  and what \<open>clt.c\<close> leaves alone of the owner's state. The handlers of
  \<open>clt.c\<close> are proved safe inside the locale, for every owner that keeps the
  contract: they return, the log stays legal and no object is lost.
\<close>


section \<open>The contract with the owner of a connection\<close>

definition event_new_ok :: "env \<Rightarrow> bool" where
  \<comment> \<open>the code does not check the result of \<open>event_new\<close>\<close>
  "event_new_ok env \<longleftrightarrow> env_ok env Event_new_site = (\<lambda>_. True)"

definition drop_creq :: "addr \<Rightarrow> 'a clt_world_scheme \<Rightarrow> 'a clt_world_scheme" where
  \<comment> \<open>the end of \<open>clt_conn_destroy\<close>: the timer and the block are released\<close>
  "drop_creq r w = (emit (Event_free (Ev_timeout r)) (emit (Event_del (Ev_timeout r)) w))
     \<lparr>creqs := (creqs w)(r := None)\<rparr>"

lemma emit_set_creq: "emit c (set_creq r y w) = set_creq r y (emit c w)"
  by (simp add: emit_def set_creq_def)

lemma drop_set_creq: "drop_creq r (set_creq r y w) = drop_creq r w"
  by (simp add: drop_creq_def set_creq_def emit_def)

lemma set_creq_idem: "creqs w r = Some y \<Longrightarrow> set_creq r y w = w"
  by (simp add: set_creq_def fun_upd_idem)

locale notify_client =
  fixes ncb :: "'a clt_world_scheme notify_cb" and J :: "'a clt_world_scheme \<Rightarrow> bool"
  assumes frame: "J w \<Longrightarrow> owner_same w w' \<Longrightarrow> J w'"
    and notify_quiet: "ct \<noteq> CLT_NOTIFY_CONN_CLOSING \<Longrightarrow> J w \<Longrightarrow> creqs w r = Some x \<Longrightarrow> r_cb x
      \<Longrightarrow> \<exists>w'. ncb r ct d (r_cbdata x) w = Some w' \<and> J w' \<and> quiet w w'"
    and notify_closing: "J w \<Longrightarrow> clt_inv K w \<Longrightarrow> creqs w r = Some x \<Longrightarrow> r_cb x \<Longrightarrow> r_con x = None
      \<Longrightarrow> \<exists>w'. ncb r CLT_NOTIFY_CONN_CLOSING d (r_cbdata x) w = Some w' \<and> J w' \<and> clt_inv K w'
             \<and> creqs w' r = Some x"
begin

lemma J_emit: "J w \<Longrightarrow> own_call c \<Longrightarrow> J (emit c w)"
  using frame owner_same_emit by blast

lemma J_set_creq: "J w \<Longrightarrow> creqs w r = Some x \<Longrightarrow> r_cb y = r_cb x \<Longrightarrow> r_cbdata y = r_cbdata x
    \<Longrightarrow> J (set_creq r y w)"
  using frame owner_same_set_creq by blast

lemma call_notify_quiet:
  assumes "J w" "creqs w r = Some x" "ct \<noteq> CLT_NOTIFY_CONN_CLOSING"
  shows "\<exists>w'. clt_call_notify ncb r ct d w = Some w' \<and> J w' \<and> quiet w w'"
  using notify_quiet [OF assms(3,1,2)] assms by (cases "r_cb x") (auto simp: clt_call_notify_def)

lemma call_notify_closing:
  assumes "J w" "clt_inv K w" "creqs w r = Some x" "r_con x = None"
  shows "\<exists>w'. clt_call_notify ncb r CLT_NOTIFY_CONN_CLOSING d w = Some w' \<and> J w' \<and> clt_inv K w'
    \<and> creqs w' r = Some x"
  using notify_closing [OF assms(1-3) _ assms(4)] assms
  by (cases "r_cb x") (auto simp: clt_call_notify_def)

lemma rearm_ok:
  assumes "J w" "creqs w r = Some x" "r_ev_timeout x = Some (Ev_timeout r)"
    "ev_live (calls w) (Ev_timeout r)"
  shows "\<exists>w'. clt_conn_timeout_rearm r w = Some w' \<and> J w' \<and> quiet w w'"
  using assms quiet_event [of "Event_add (Ev_timeout r) (Some (5, 0))" w]
  by (simp add: clt_conn_timeout_rearm_def J_emit)

lemma stop_ok:
  assumes "J w" "creqs w r = Some x" "r_ev_timeout x = Some (Ev_timeout r)"
    "ev_live (calls w) (Ev_timeout r)"
  shows "\<exists>w'. clt_conn_timeout_stop r w = Some w' \<and> J w' \<and> quiet w w'"
  using assms quiet_event [of "Event_del (Ev_timeout r)" w]
  by (simp add: clt_conn_timeout_stop_def J_emit)

lemma timeout_ok:
  assumes "J w" "clt_inv {} w" "creqs w r = Some x"
  shows "\<exists>w'. clt_conn_timeout ncb r w = Some w' \<and> J w' \<and> clt_inv {} w'"
  using call_notify_quiet [OF assms(1,3), of CLT_NOTIFY_REQUEST_TIMEOUT 0] assms(2)
  by (auto simp: clt_conn_timeout_def intro: clt_inv_quiet)

lemma progress_hooks_ok:
  assumes "J w" "clt_inv {} w" "creqs w r = Some x" "r_req x = Some q"
  shows "\<exists>w'. clt_upstream_new_chunk q r n w = Some w' \<and> J w' \<and> clt_inv {} w'"
    and "\<exists>w'. clt_upstream_chunk_done q r n w = Some w' \<and> J w' \<and> clt_inv {} w'"
    and "\<exists>w'. clt_upstream_chunks_done q r w = Some w' \<and> J w' \<and> clt_inv {} w'"
    and "\<exists>w'. clt_upstream_headers_start q r w = Some w' \<and> J w' \<and> clt_inv {} w'"
proof -
  note D = clt_invD [OF assms(2,3)]
  have live: "req_live (calls w) q" by (rule D(9) [OF assms(4)])
  obtain w1 where w1: "clt_conn_timeout_rearm r w = Some w1" "J w1" "quiet w w1"
    using rearm_ok [OF assms(1,3) D(1,2)] by blast
  have a: "J (emit (Request_access q) w)" "quiet w (emit (Request_access q) w)"
    using J_emit [OF assms(1)] live by auto
  obtain w2 where w2: "clt_conn_timeout_rearm r (emit (Request_access q) w) = Some w2" "J w2"
    "quiet (emit (Request_access q) w) w2"
    using rearm_ok [OF a(1), of r x] assms(3) D(1,2) by auto
  have q2: "quiet w w2" using a(2) w2(3) by (rule quiet_trans)
  have d: "J (emit (Request_drain q n) w2)" "quiet w (emit (Request_drain q n) w2)"
    using J_emit [OF w2(2)] quiet_trans [OF q2 quiet_access(2)] quietD(7) [OF q2] live by auto
  show "\<exists>w'. clt_upstream_new_chunk q r n w = Some w' \<and> J w' \<and> clt_inv {} w'"
    using w2 q2 assms clt_inv_quiet [OF q2 assms(2)] by (simp add: clt_upstream_new_chunk_def)
  show "\<exists>w'. clt_upstream_chunk_done q r n w = Some w' \<and> J w' \<and> clt_inv {} w'"
    using w2 d assms clt_inv_quiet [OF d(2) assms(2)] by (simp add: clt_upstream_chunk_done_def)
  show "\<exists>w'. clt_upstream_chunks_done q r w = Some w' \<and> J w' \<and> clt_inv {} w'"
    "\<exists>w'. clt_upstream_headers_start q r w = Some w' \<and> J w' \<and> clt_inv {} w'"
    using w1 clt_inv_quiet [OF w1(3) assms(2)]
    by (simp_all add: clt_upstream_chunks_done_def clt_upstream_headers_start_def)
qed

lemma error_ok:
  assumes "J w" "clt_inv {} w" "creqs w r = Some x"
  shows "\<exists>w'. clt_upstream_error ncb q tmo r w = Some w' \<and> J w' \<and> clt_inv {} w'"
proof -
  note D = clt_invD [OF assms(2,3)]
  obtain w1 where w1: "(if tmo then clt_call_notify ncb r CLT_NOTIFY_REQUEST_TIMEOUT 0 w
      else clt_call_notify ncb r CLT_NOTIFY_REQUEST_DONE_ERROR 0 w) = Some w1" "J w1" "quiet w w1"
    using call_notify_quiet [OF assms(1,3), of CLT_NOTIFY_REQUEST_TIMEOUT 0]
      call_notify_quiet [OF assms(1,3), of CLT_NOTIFY_REQUEST_DONE_ERROR 0] by (cases tmo) auto
  have inv1: "clt_inv {} w1" by (rule clt_inv_quiet [OF w1(3) assms(2)])
  have c1: "creqs w1 r = Some x" using quietD(1) [OF w1(3)] assms(3) by simp
  note D1 = clt_invD [OF inv1 c1]
  obtain w2 where "clt_conn_timeout_stop r w1 = Some w2" "J w2" "quiet w1 w2"
    using stop_ok [OF w1(2) c1 D1(1,2)] by blast
  then show ?thesis using w1 clt_inv_quiet [OF _ inv1] by (auto simp: clt_upstream_error_def)
qed

text \<open>The end of a request.\<close>

lemma req_destroy_eq:
  assumes "J w" "creqs w r = Some x"
  shows "\<exists>w1 w'. quiet w w1 \<and> J w' \<and> clt_req_destroy ncb r w = Some w'
    \<and> creqs w' = (creqs w)(r \<mapsto> x\<lparr>r_req := None, r_uri := None\<rparr>)
    \<and> next_addr w' = next_addr w
    \<and> calls w' = (case r_req x of None \<Rightarrow> calls w1
        | Some q \<Rightarrow> Request_free q # Request_unset_hooks q # calls w1)"
proof -
  obtain w1 where w1: "clt_call_notify ncb r CLT_NOTIFY_REQ_DESTROYING 0 w = Some w1" "J w1"
    "quiet w w1"
    using call_notify_quiet [OF assms] by blast
  have c1: "creqs w1 = creqs w" "next_addr w1 = next_addr w" using quietD [OF w1(3)] by auto
  show ?thesis
  proof (cases "r_req x")
    case None
    have x: "x\<lparr>r_uri := None\<rparr> = x\<lparr>r_req := None, r_uri := None\<rparr>" using None by simp
    have "J (set_creq r (x\<lparr>r_uri := None\<rparr>) w1)" using J_set_creq [OF w1(2)] c1 assms by simp
    moreover have "clt_req_destroy ncb r w = Some (set_creq r (x\<lparr>r_uri := None\<rparr>) w1)"
      using w1(1) c1 None assms(2) by (simp add: clt_req_destroy_def)
    ultimately show ?thesis using w1(3) c1 None x by fastforce
  next
    case (Some q)
    let ?w2 = "emit (Request_free q) (emit (Request_unset_hooks q) w1)"
    let ?w3 = "set_creq r (x\<lparr>r_req := None\<rparr>) ?w2"
    let ?w4 = "set_creq r (x\<lparr>r_req := None, r_uri := None\<rparr>) ?w3"
    have "J ?w2" using J_emit w1(2) by simp
    then have "J ?w3" using J_set_creq [of ?w2 r x] c1 assms by simp
    then have "J ?w4" using J_set_creq [of ?w3 r "x\<lparr>r_req := None\<rparr>"] by simp
    moreover have "clt_req_destroy ncb r w = Some ?w4"
      using w1(1) c1 Some assms(2) by (simp add: clt_req_destroy_def)
    ultimately show ?thesis using w1(3) c1 Some by fastforce
  qed
qed

lemma fini_ok:
  assumes "J w" "clt_inv {} w" "creqs w r = Some x" "r_req x = Some q" "r_con x = Some k"
  shows "\<exists>w'. clt_upstream_fini ncb q r w = Some w' \<and> J (emit (Lib_request_freed q) w')
    \<and> clt_inv {} (emit (Lib_request_freed q) w')"
proof -
  note D = clt_invD [OF assms(2,3)]
  let ?w1 = "emit (Request_unset_hooks q) w"
  have J1: "J ?w1" using J_emit assms(1) by simp
  obtain w2 where w2: "clt_conn_timeout_stop r ?w1 = Some w2" "J w2" "quiet ?w1 w2"
    using stop_ok [OF J1, of r x] assms(3) D(1,2) by auto
  let ?w3 = "set_creq r (x\<lparr>r_req := None\<rparr>) w2"
  have c2: "creqs w2 = creqs w" "next_addr w2 = next_addr w" using quietD [OF w2(3)] by auto
  have J3: "J ?w3" using J_set_creq [OF w2(2)] c2 assms by simp
  obtain w4 w' where w4: "quiet ?w3 w4" "J w'" "clt_req_destroy ncb r ?w3 = Some w'"
    "creqs w' = (creqs ?w3)(r \<mapsto> x\<lparr>r_req := None, r_uri := None\<rparr>)"
    "next_addr w' = next_addr ?w3" "calls w' = calls w4"
    using req_destroy_eq [OF J3, of r "x\<lparr>r_req := None\<rparr>"] by auto
  have p: "proj_eq (Request_unset_hooks q # calls w) (calls w')"
    using w2(3) w4(1,6) proj_eq_trans by (auto simp: quiet_def)
  have "clt_inv {} (emit (Lib_request_freed q) w')"
    by (rule req_lib_release [OF assms(2,3,5,4) p]) (simp_all add: w4 c2)
  moreover have "clt_upstream_fini ncb q r w = Some w'"
    using w2 w4 c2 assms by (simp add: clt_upstream_fini_def)
  ultimately show ?thesis using J_emit [OF w4(2)] by auto
qed

lemma req_cb_ok:
  assumes "J w" "clt_inv {} w" "creqs w r = Some x" "r_req x = Some q" "r_con x = Some k"
  shows "\<exists>w'. clt_req_cb ncb q r status w = Some w' \<and> J w' \<and> clt_inv {} w'"
proof -
  note D = clt_invD [OF assms(2,3)]
  let ?w0 = "emit (Request_access q) w"
  have q0: "quiet w ?w0" using D(9) [OF assms(4)] by auto
  have J0: "J ?w0" using J_emit assms(1) by simp
  obtain w1 where w1: "clt_call_notify ncb r CLT_NOTIFY_REQUEST_DONE_OK status ?w0 = Some w1"
    "J w1" "quiet ?w0 w1"
    using call_notify_quiet [OF J0, of r x CLT_NOTIFY_REQUEST_DONE_OK status] assms(3) by auto
  have q1: "quiet w w1" using q0 w1(3) by (rule quiet_trans)
  have c1: "creqs w1 = creqs w" using quietD [OF q1] by simp
  obtain w2 where w2: "clt_conn_timeout_stop r w1 = Some w2" "J w2" "quiet w1 w2"
    using stop_ok [OF w1(2), of r x] assms(3) D(1,2) c1 quietD(10) [OF q1] by auto
  have q2: "quiet w w2" using q1 w2(3) by (rule quiet_trans)
  have c2: "creqs w2 = creqs w" "next_addr w2 = next_addr w" using quietD [OF q2] by auto
  let ?w3 = "emit (Connection_clear_request k) (emit (Request_unset_hooks q) w2)"
  have J3: "J ?w3" using J_emit w2(2) by simp
  obtain w4 w' where w4: "quiet ?w3 w4" "J w'" "clt_req_destroy ncb r ?w3 = Some w'"
    "creqs w' = (creqs ?w3)(r \<mapsto> x\<lparr>r_req := None, r_uri := None\<rparr>)"
    "next_addr w' = next_addr ?w3"
    "calls w' = Request_free q # Request_unset_hooks q # calls w4"
    using req_destroy_eq [OF J3, of r x] assms c2 by auto
  have "clt_inv {} w'"
  proof (rule req_release [OF clt_inv_quiet [OF q2 assms(2)] _ assms(5,4) _ _ w4(6)])
    show "proj_eq (Connection_clear_request k # Request_unset_hooks q # calls w2) (calls w4)"
      using w4(1) by (simp add: quiet_def)
  qed (simp_all add: w4 c2 assms)
  moreover have "clt_req_cb ncb q r status w = Some w'"
    using w1 w2 w4 c2 assms by (simp add: clt_req_cb_def)
  ultimately show ?thesis using w4(2) by blast
qed

text \<open>The end of a connection.\<close>

lemma conn_fini_ok:
  assumes "J w" "creqs w r = Some x" "y = x\<lparr>r_con := None, r_req := None\<rparr>"
    and inv: "clt_inv (insert k K) (set_creq r y w)"
    and q: "\<And>q. r_req x = Some q \<Longrightarrow> con_request (calls w) k = Some q"
  shows "\<exists>w'. clt_upstream_conn_fini ncb k r w = Some w' \<and> J w' \<and> clt_inv (insert k K) w'
    \<and> creqs w' r = Some y"
proof -
  let ?w1 = "set_creq r y w"
  let ?w2 = "emit (Connection_unset_hooks k) ?w1"
  let ?w3 = "case r_req x of None \<Rightarrow> ?w2 | Some q \<Rightarrow> emit (Request_unset_hooks q) ?w2"
  have J1: "J ?w1" using J_set_creq [OF assms(1,2)] assms(3) by simp
  have i2: "clt_inv (insert k K) ?w2" using con_unset [OF inv] by simp
  have i3: "clt_inv (insert k K) ?w3"
    using limbo_req_unset [OF i2, of k] i2 q by (auto split: option.splits)
  have J3: "J ?w3" using J_emit J1 by (auto split: option.splits)
  have c3: "creqs ?w3 r = Some y" by (auto split: option.splits)
  obtain w4 where w4: "clt_conn_timeout_rearm r ?w3 = Some w4" "J w4" "quiet ?w3 w4"
    using rearm_ok [OF J3 c3 clt_invD(1,2) [OF i3 c3]] by blast
  have i4: "clt_inv (insert k K) w4" by (rule clt_inv_quiet [OF w4(3) i3])
  have c4: "creqs w4 r = Some y" using quietD(1) [OF w4(3)] c3 by simp
  obtain w5 where w5: "clt_call_notify ncb r CLT_NOTIFY_CONN_CLOSING 0 w4 = Some w5" "J w5"
    "clt_inv (insert k K) w5" "creqs w5 r = Some y"
    using call_notify_closing [OF w4(2) i4 c4] assms(3) by auto
  have "clt_upstream_conn_fini ncb k r w = Some w5"
    using w4(1) w5(1) assms(2,3)
    by (cases "r_req x") (simp_all add: clt_upstream_conn_fini_def emit_set_creq)
  with w5 show ?thesis by blast
qed

lemma lib_conn_fini_ok:
  assumes "J w" "clt_inv {} w" "creqs w r = Some x" "r_con x = Some k"
  shows "\<exists>w'. clt_upstream_conn_fini ncb k r w = Some w' \<and> J (emit (Lib_connection_freed k) w')
    \<and> clt_inv {} (emit (Lib_connection_freed k) w')"
proof -
  let ?y = "x\<lparr>r_con := None, r_req := None\<rparr>"
  obtain w' where w': "clt_upstream_conn_fini ncb k r w = Some w'" "J w'" "clt_inv {k} w'"
    using conn_fini_ok [OF assms(1,3) refl con_release [OF assms(2-4)]]
      clt_invD(8) [OF assms(2-4)] by auto
  then show ?thesis using con_free(2) [of k "{}" w'] J_emit by auto
qed

lemma connection_free_ok:
  assumes "J w" "creqs w r = Some x" "y = x\<lparr>r_con := None, r_req := None\<rparr>"
    and inv: "clt_inv {k} (set_creq r y w)" and hk: "con_hook (calls w) k = Some r"
    and q: "\<And>q. r_req x = Some q \<Longrightarrow> con_request (calls w) k = Some q"
  shows "\<exists>w' z. evhtp_connection_free env ncb k w = Some w' \<and> J w'
    \<and> creqs w' r = Some z \<and> r_ev_timeout z = r_ev_timeout x \<and> r_cb z = r_cb x
    \<and> r_cbdata z = r_cbdata x \<and> clt_inv {} (set_creq r y w')"
proof (cases "env_fini_hook env k")
  case True
  obtain w' where w': "clt_upstream_conn_fini ncb k r w = Some w'" "J w'" "clt_inv {k} w'"
    "creqs w' r = Some y"
    using conn_fini_ok [OF assms(1-3) inv q] by auto
  let ?w = "emit (Connection_free k) w'"
  have "set_creq r y ?w = ?w" using w'(4) by (simp add: set_creq_idem)
  moreover have "clt_inv {} ?w" using con_free(1) [of k "{}"] w'(3) by simp
  moreover have "J ?w" using J_emit w'(2) by simp
  ultimately show ?thesis using w' True hk assms(3)
    by (simp add: evhtp_connection_free_def)
next
  case False
  have "clt_inv {} (emit (Connection_free k) (set_creq r y w))"
    using con_free(1) [of k "{}"] inv by simp
  then show ?thesis using False assms(2) J_emit [OF assms(1)]
    by (simp add: evhtp_connection_free_def emit_set_creq)
qed

lemma conn_destroy_ok:
  assumes "J w" "clt_inv {} w" "creqs w r = Some x"
  shows "\<exists>w' y. clt_conn_destroy env ncb r w = Some (drop_creq r w') \<and> J w' \<and> clt_inv {} w'
    \<and> creqs w' r = Some y \<and> r_con y = None \<and> r_cbdata y = r_cbdata x"
proof (cases "r_con x")
  case None
  note D = clt_invD [OF assms(2,3)]
  have "clt_conn_destroy env ncb r w = Some (drop_creq r w)"
    using None assms(3) D(1) D(4) [OF None]
    by (simp add: clt_conn_destroy_def free_creq_def drop_creq_def)
  then show ?thesis using assms None by blast
next
  case (Some k)
  note D = clt_invD [OF assms(2,3)]
  let ?y = "x\<lparr>r_con := None, r_req := None\<rparr>"
  let ?w1 = "case r_req x of None \<Rightarrow> w | Some q \<Rightarrow>
    emit (Connection_access k) (emit (Request_unset_hooks q) w)"
  have i: "clt_inv {k} (set_creq r ?y w)" by (rule con_release [OF assms(2,3) Some])
  have i1: "clt_inv {k} (set_creq r ?y ?w1)"
  proof (cases "r_req x")
    case None
    then show ?thesis using i by simp
  next
    case (Some q)
    have "clt_inv {k} (emit (Request_unset_hooks q) (set_creq r ?y w))"
      using limbo_req_unset [OF i, of k q] D(8) [OF \<open>r_con x = Some k\<close>] Some by simp
    then have "clt_inv {k} (emit (Connection_access k)
        (emit (Request_unset_hooks q) (set_creq r ?y w)))"
      by (rule clt_inv_quiet [rotated])
        (use D(6) [OF \<open>r_con x = Some k\<close>] in \<open>auto intro!: quiet_access(3)\<close>)
    then show ?thesis using Some by (simp add: emit_set_creq)
  qed
  have J1: "J ?w1" using J_emit assms(1) by (auto split: option.splits)
  have c1: "creqs ?w1 r = Some x" "con_hook (calls ?w1) k = Some r"
    "con_request (calls ?w1) k = r_req x"
    using assms(3) D(7,8) [OF Some] by (auto split: option.splits)
  obtain w' z where w': "evhtp_connection_free env ncb k ?w1 = Some w'" "J w'"
    "creqs w' r = Some z" "r_ev_timeout z = r_ev_timeout x" "r_cb z = r_cb x"
    "r_cbdata z = r_cbdata x" "clt_inv {} (set_creq r ?y w')"
    using connection_free_ok [OF J1 c1(1) refl i1 c1(2), of env]
      c1(3) [THEN trans] by blast
  have "clt_conn_destroy env ncb r w = Some (drop_creq r w')"
    using Some assms(3) w'(1,3,4) D(1) D(8) [OF Some]
    by (cases "r_req x") (simp_all add: clt_conn_destroy_def free_creq_def drop_creq_def)
  moreover have "J (set_creq r ?y w')" using J_set_creq [OF w'(2,3)] w'(5,6) by simp
  ultimately show ?thesis using w'(7)
    by (intro exI [of _ "set_creq r ?y w'"] exI [of _ ?y]) (simp add: drop_set_creq)
qed

end

end
