(* ===== verification/Mgr_Invariant.thy ===== *)
theory Mgr_Invariant
  imports Mgr Clt_Contract
begin

text \<open>
  The invariant of the connection manager and the work on one connection.
  \<open>mgr_inv\<close> ties the list, the counters, the connection objects, their
  events and the blocks of \<open>clt.c\<close> together; the set \<open>D\<close> holds connections
  whose destruction is under way. \<open>phase_le\<close> says what such work leaves
  alone of the state machine.
\<close>

section \<open>The invariant of the manager\<close>

definition cfg_ok :: "mgr_config \<Rightarrow> bool" where
  "cfg_ok g \<longleftrightarrow> array_wf (ipv4_dst g) \<and> addrs (ipv4_dst g) \<noteq> [] \<and> uri g \<noteq> None
     \<and> in_int (target_nconn g) \<and> in_int (target_request_count g)
     \<and> in_int (target_total_nconn_count g)"

definition counts_ok :: "clt_mgr \<Rightarrow> bool" where
  "counts_ok m \<longleftrightarrow> cfg_ok (cfg m) \<and> distinct (mgr_conn_list m)
     \<and> nconn (stats m) = int (length (mgr_conn_list m))
     \<and> nconn (stats m) \<le> max 0 (target_nconn (cfg m))
     \<and> (target_total_nconn_count (cfg m) > 0 \<longrightarrow>
          conn_count (stats m) \<le> word_of_int (target_total_nconn_count (cfg m)))
     \<and> req_count_ok (stats m) = req_statustype_200 (stats m) + req_statustype_302 (stats m)
          + req_statustype_other (stats m)
     \<and> (rate_ok (target_request_rate (cfg m)) \<longrightarrow> pacer_inv m)"

definition limit_ok :: "mgr_config \<Rightarrow> clt_mgr_conn \<Rightarrow> bool \<Rightarrow> bool" where
  \<comment> \<open>requests made and queued stay within the limits of a connection\<close>
  "limit_ok g m queued \<longleftrightarrow> c_target_request_count m = target_request_count g
     \<and> (target_request_count g > 0 \<longrightarrow>
          0 \<le> cur_req_count m \<and> cur_req_count m + of_bool queued \<le> target_request_count g)
     \<and> (http_keepalive g = 0 \<longrightarrow>
          0 \<le> cur_req_count m \<and> cur_req_count m + of_bool queued \<le> 1)"

definition owner_of :: "'a clt_world_scheme \<Rightarrow> addr \<Rightarrow> addr option" where
  "owner_of w r = map_option r_cbdata (creqs w r)"

definition conn_ok :: "addr set \<Rightarrow> world \<Rightarrow> addr \<Rightarrow> clt_mgr_conn \<Rightarrow> bool" where
  "conn_ok D w c m \<longleftrightarrow> ev_new_http_req m = Some (Ev_http_req c)
     \<and> ev_conn_destroy m = Some (Ev_conn_destroy c)
     \<and> ev_live (calls w) (Ev_http_req c) \<and> ev_live (calls w) (Ev_conn_destroy c)
     \<and> c < next_addr w
     \<and> (\<exists>r. c_req m = Some r \<and> owner_of w r = Some c)
     \<and> (is_dead m \<noteq> 0 \<longrightarrow> c \<in> D \<or> ev_pending (calls w) (Ev_conn_destroy c))
     \<and> limit_ok (cfg (mgr w)) m (ev_pending (calls w) (Ev_http_req c))"

definition timers_ok :: "world \<Rightarrow> bool" where
  "timers_ok w \<longleftrightarrow> t_timerev (mgr w) = Some T_timer \<and> t_stat_timerev (mgr w) = Some T_stat
     \<and> t_running_timerev (mgr w) = Some T_running \<and> t_wait_timerev (mgr w) = Some T_wait
     \<and> t_cleanup_timerev (mgr w) = Some T_cleanup
     \<and> (\<forall>e \<in> {T_timer, T_stat, T_running, T_wait, T_cleanup}. ev_live (calls w) e)"

definition links_ok :: "world \<Rightarrow> bool" where
  "links_ok w \<longleftrightarrow> set (mgr_conn_list (mgr w)) = dom (conns w)
     \<and> (\<forall>r c. owner_of w r = Some c \<longrightarrow>
          (\<exists>m. conns w c = Some m \<and> c_req m = Some r))
     \<and> (\<forall>c. ev_live (calls w) (Ev_http_req c) \<or> ev_live (calls w) (Ev_conn_destroy c)
          \<longrightarrow> conns w c \<noteq> None)"

definition mgr_inv :: "env \<Rightarrow> addr set \<Rightarrow> world \<Rightarrow> bool" where
  "mgr_inv env D w \<longleftrightarrow> event_new_ok env \<and> counts_ok (mgr w) \<and> timers_ok w \<and> links_ok w
     \<and> (\<forall>c m. conns w c = Some m \<longrightarrow> conn_ok D w c m)"

text \<open>
  What the work on connections leaves alone of the state machine: the state,
  the manager's own timers, and that a dead connection stays dead; connections
  are added only while the state allows it.
\<close>

definition mgr_ev :: "ev \<Rightarrow> bool" where
  "mgr_ev e \<longleftrightarrow> e \<in> {T_timer, T_stat, T_running, T_wait, T_cleanup}"

definition phase_le :: "world \<Rightarrow> world \<Rightarrow> bool" where
  "phase_le w w' \<longleftrightarrow> mgr_state (mgr w') = mgr_state (mgr w)
     \<and> (\<forall>e. mgr_ev e \<longrightarrow> ev_pending (calls w') e = ev_pending (calls w) e)
     \<and> (cfg (mgr w'))\<lparr>ipv4_dst := ipv4_dst (cfg (mgr w))\<rparr> = cfg (mgr w)
     \<and> (mgr_state (mgr w) \<in> {CLT_MGR_STATE_RUNNING, CLT_MGR_STATE_INIT} \<or>
        (\<forall>c m'. conns w' c = Some m' \<longrightarrow>
          (\<exists>m. conns w c = Some m \<and> (is_dead m \<noteq> 0 \<longrightarrow> is_dead m' \<noteq> 0))))"

lemma phase_le_refl [simp]: "phase_le w w"
  by (simp add: phase_le_def)

lemma phase_le_trans: "phase_le w w' \<Longrightarrow> phase_le w' w'' \<Longrightarrow> phase_le w w''"
  unfolding phase_le_def
  apply (intro conjI)
     apply simp
    apply simp
   apply (metis mgr_config.surjective mgr_config.update_convs(10))
  apply (elim conjE)
  apply (erule disjE)
   apply simp
  apply (erule disjE)
   apply simp
  apply (rule disjI2)
  apply metis
  done

section \<open>Steps\<close>

lemma upd_sel [simp]:
  "mgr (upd_mgr f w) = f (mgr w)" "conns (upd_mgr f w) = conns w"
  "calls (upd_mgr f w) = calls w" "creqs (upd_mgr f w) = creqs w"
  "next_addr (upd_mgr f w) = next_addr w" "prev_stats (upd_mgr f w) = prev_stats w"
  by (simp_all add: upd_mgr_def)

lemma set_conn_sel [simp]:
  "mgr (set_conn c m w) = mgr w" "conns (set_conn c m w) = (conns w)(c \<mapsto> m)"
  "calls (set_conn c m w) = calls w" "creqs (set_conn c m w) = creqs w"
  "next_addr (set_conn c m w) = next_addr w" "prev_stats (set_conn c m w) = prev_stats w"
  by (simp_all add: set_conn_def)

lemma set_creq_world [simp]:
  "mgr (set_creq r x w) = mgr w" "conns (set_creq r x w) = conns w"
  "prev_stats (set_creq r x w) = prev_stats w"
  by (simp_all add: set_creq_def)

lemma quiet_upd [simp]: "quiet w (upd_mgr f w)" "quiet w (set_conn c m w)"
  by (simp_all add: quiet_def)

lemma emit_set_conn: "emit e (set_conn c m w) = set_conn c m (emit e w)"
  by (simp add: emit_def set_conn_def)

lemma more_eqD:
  fixes w w' :: world
  assumes "clt_world.more w' = clt_world.more w"
  shows "mgr w' = mgr w" "conns w' = conns w" "prev_stats w' = prev_stats w"
  using assms by (cases w; cases w'; simp)+

lemma own_ev_simps [simp]: "\<not> own_ev (Ev_http_req c)" "\<not> own_ev (Ev_conn_destroy c)"
  "\<not> own_ev T_timer" "\<not> own_ev T_stat" "\<not> own_ev T_running" "\<not> own_ev T_wait"
  "\<not> own_ev T_cleanup"
  by (simp_all add: own_ev_def)

lemma mgr_ev_own: "mgr_ev e \<Longrightarrow> \<not> own_ev e"
  by (auto simp: mgr_ev_def)

lemma owner_same_world:
  fixes w w' :: world
  assumes "owner_same w w'"
  shows "mgr w' = mgr w" "conns w' = conns w"
    "\<not> own_ev e \<Longrightarrow> ev_live (calls w') e = ev_live (calls w) e"
    "\<not> own_ev e \<Longrightarrow> ev_pending (calls w') e = ev_pending (calls w) e"
    "owner_of w' r = owner_of w r"
    "next_addr w \<le> next_addr w'"
  using assms more_eqD [of w' w] by (simp_all add: owner_same_def owner_of_def)

lemma mgr_inv_frame:
  assumes "mgr_inv env D w" and s: "owner_same w w'"
  shows "mgr_inv env D w'"
proof -
  note S = owner_same_world [OF s]
  have "conn_ok D w' c m" if "conn_ok D w c m" for c m
    using that S(6) by (auto simp: conn_ok_def S(1-5))
  then show ?thesis using assms(1) by (simp add: mgr_inv_def timers_ok_def links_ok_def S)
qed

lemma phase_le_frame: "owner_same w w' \<Longrightarrow> phase_le w (w' :: world)"
  unfolding phase_le_def by (auto simp: owner_same_world mgr_ev_own)


section \<open>Work on one connection\<close>

fun conn_call :: "addr \<Rightarrow> libcall \<Rightarrow> bool" where
  \<comment> \<open>calls that schedule or cancel work on the connection \<open>c\<close>\<close>
  "conn_call c (Event_add e tv) = (e \<in> {Ev_http_req c, Ev_conn_destroy c})"
| "conn_call c (Event_active e) = (e \<in> {Ev_http_req c, Ev_conn_destroy c})"
| "conn_call c (Event_del e) = (e \<in> {Ev_http_req c, Ev_conn_destroy c})"
| "conn_call c (Fired e) = (e \<in> {Ev_http_req c, Ev_conn_destroy c} )"
| "conn_call c _ = False"

lemma conn_call_event: "conn_call c a \<Longrightarrow> event_call a"
  by (cases a) auto

lemma conn_calls_live: "list_all (conn_call c) es \<Longrightarrow> ev_live (es @ l) = ev_live l"
proof (induction es)
  case (Cons a es)
  then show ?case by (cases a) (auto simp: fun_eq_iff)
qed simp

lemma conn_calls_pending:
  "list_all (conn_call c) es \<Longrightarrow> e \<notin> {Ev_http_req c, Ev_conn_destroy c}
     \<Longrightarrow> ev_pending (es @ l) e = ev_pending l e"
proof (induction es)
  case (Cons a es)
  then show ?case by (cases a) auto
qed simp

lemma owner_conn:
  assumes "mgr_inv env D w" "owner_of w r = Some c"
  shows "\<exists>m. conns w c = Some m \<and> c_req m = Some r"
proof -
  have "links_ok w" using assms(1) by (simp add: mgr_inv_def)
  then show ?thesis using assms(2) unfolding links_ok_def by blast
qed

lemma mgr_inv_conn:
  assumes inv: "mgr_inv env D w" and m: "conns w c = Some m"
    and w': "conns w' = (conns w)(c \<mapsto> m')" "mgr w' = mgr w" "creqs w' = creqs w"
      "next_addr w' = next_addr w" "calls w' = es @ calls w" and es: "list_all (conn_call c) es"
    and m': "c_req m' = c_req m" "ev_new_http_req m' = ev_new_http_req m"
      "ev_conn_destroy m' = ev_conn_destroy m"
    and dead: "is_dead m' \<noteq> 0 \<Longrightarrow> c \<in> D' \<or> ev_pending (calls w') (Ev_conn_destroy c)"
    and lim: "limit_ok (cfg (mgr w)) m' (ev_pending (calls w') (Ev_http_req c))"
    and D: "D \<subseteq> insert c D'"
  shows "mgr_inv env D' w'"
proof -
  have L: "ev_live (calls w') = ev_live (calls w)" unfolding w' by (rule conn_calls_live [OF es])
  have P: "ev_pending (calls w') e = ev_pending (calls w) e"
    if "e \<notin> {Ev_http_req c, Ev_conn_destroy c}" for e
    unfolding w' by (rule conn_calls_pending [OF es that])
  have O: "owner_of w' = owner_of w" by (simp add: owner_of_def fun_eq_iff w')
  have "conn_ok D' w' c' x" if x: "conns w' c' = Some x" for c' x
  proof (cases "c' = c")
    case True
    have "conn_ok D w c m" using inv m by (simp add: mgr_inv_def)
    then show ?thesis using True x w'(1-4) m' dead lim by (auto simp: conn_ok_def L O)
  next
    case False
    then have "conn_ok D w c' x" using inv x w'(1) by (simp add: mgr_inv_def)
    then show ?thesis using False D by (auto simp: conn_ok_def L O P w'(1-4))
  qed
  moreover have "dom (conns w') = dom (conns w)" using m w' by auto
  moreover have "\<exists>x. conns w' c' = Some x \<and> c_req x = Some r" if o: "owner_of w r = Some c'" for r c'
  proof -
    obtain x where "conns w c' = Some x" "c_req x = Some r"
      using owner_conn [OF inv o] by blast
    then show ?thesis using m m' w'(1) by (cases "c' = c") auto
  qed
  moreover have "links_ok w'"
    using inv calculation(2,3) w'(1) m by (auto simp: mgr_inv_def links_ok_def L O w'(1-4))
  ultimately show ?thesis using inv by (simp add: mgr_inv_def timers_ok_def L w'(1-4))
qed

lemma phase_le_conn:
  assumes m: "conns w c = Some m"
    and w': "conns w' = (conns w)(c \<mapsto> m')" "mgr w' = mgr w" "calls w' = es @ calls w"
    and es: "list_all (conn_call c) es" and dead: "is_dead m \<noteq> 0 \<Longrightarrow> is_dead m' \<noteq> 0"
  shows "phase_le w w'"
proof -
  have "ev_pending (calls w') e = ev_pending (calls w) e" if "mgr_ev e" for e
    unfolding w' by (rule conn_calls_pending [OF es]) (use that in \<open>auto simp: mgr_ev_def\<close>)
  then show ?thesis using m w' dead by (auto simp: phase_le_def)
qed

lemma quiet_conn:
  assumes "creqs w' = creqs w" "next_addr w' = next_addr w" "calls w' = es @ calls w"
    "ev_live (calls w) (Ev_http_req c)" "ev_live (calls w) (Ev_conn_destroy c)"
    and es: "list_all (\<lambda>a. conn_call c a \<and> (\<forall>e. a \<noteq> Fired e)) es"
  shows "quiet w w'"
proof -
  have "proj_eq l (es @ l)" if "ev_live l (Ev_http_req c)" "ev_live l (Ev_conn_destroy c)" for l
    using es
  proof (induction es)
    case (Cons a es)
    have "list_all (conn_call c) es" using Cons.prems by (auto simp: list_all_iff)
    then have "ev_live (es @ l) = ev_live l" by (rule conn_calls_live)
    then have "legal_call (es @ l) a" "event_call a"
      using Cons.prems that by (cases a; auto)+
    then have "proj_eq (es @ l) (a # es @ l)" by (intro proj_eq_event)
    then show ?case using Cons proj_eq_trans by auto
  qed simp
  then show ?thesis using assms by (simp add: quiet_def)
qed

lemma limit_mono: "limit_ok g m True \<Longrightarrow> limit_ok g m b"
  "limit_ok g m b \<Longrightarrow> limit_ok g m False"
  by (cases b; auto simp: limit_ok_def)+

lemma limit_cong: "c_target_request_count m' = c_target_request_count m \<Longrightarrow>
    cur_req_count m' = cur_req_count m \<Longrightarrow> limit_ok g m' b = limit_ok g m b"
  by (simp add: limit_ok_def)

lemma mgr_inv_connD:
  assumes "mgr_inv env D w" "conns w c = Some m"
  shows "ev_new_http_req m = Some (Ev_http_req c)" "ev_conn_destroy m = Some (Ev_conn_destroy c)"
    "ev_live (calls w) (Ev_http_req c)" "ev_live (calls w) (Ev_conn_destroy c)" "c < next_addr w"
    "\<exists>r x. c_req m = Some r \<and> creqs w r = Some x \<and> r_cbdata x = c"
    "is_dead m \<noteq> 0 \<Longrightarrow> c \<in> D \<or> ev_pending (calls w) (Ev_conn_destroy c)"
    "limit_ok (cfg (mgr w)) m (ev_pending (calls w) (Ev_http_req c))"
    "c \<in> set (mgr_conn_list (mgr w))"
proof -
  have "conn_ok D w c m" "links_ok w" using assms by (simp_all add: mgr_inv_def)
  then show "ev_new_http_req m = Some (Ev_http_req c)"
    "ev_conn_destroy m = Some (Ev_conn_destroy c)"
    "ev_live (calls w) (Ev_http_req c)" "ev_live (calls w) (Ev_conn_destroy c)" "c < next_addr w"
    "\<exists>r x. c_req m = Some r \<and> creqs w r = Some x \<and> r_cbdata x = c"
    "is_dead m \<noteq> 0 \<Longrightarrow> c \<in> D \<or> ev_pending (calls w) (Ev_conn_destroy c)"
    "limit_ok (cfg (mgr w)) m (ev_pending (calls w) (Ev_http_req c))"
    "c \<in> set (mgr_conn_list (mgr w))"
    using assms(2) by (auto simp: conn_ok_def owner_of_def links_ok_def)
qed

lemma start_http_req_ok:
  assumes inv: "mgr_inv env D w" and m: "conns w c = Some m"
    and slack: "limit_ok (cfg (mgr w)) m True"
  shows "\<exists>w'. clt_mgr_conn_start_http_req c msec w = Some w' \<and> mgr_inv env D w' \<and> quiet w w'
    \<and> phase_le w w'"
proof -
  note M = mgr_inv_connD [OF inv m]
  let ?m = "m\<lparr>pending_http_req := 1\<rparr>"
  define es where "es = (if msec \<le> 0
    then [Event_active (Ev_http_req c), Event_add (Ev_http_req c) None]
    else [Event_add (Ev_http_req c) (Some (msec sdiv 1000, c_int ((msec smod 1000) * 1000)))])"
  have es: "clt_mgr_conn_start_http_req c msec w
      = Some (set_conn c ?m (fold emit (rev es) w))"
    "list_all (\<lambda>a. conn_call c a \<and> (\<forall>e. a \<noteq> Fired e)) es"
    "\<forall>a \<in> set es. \<forall>l. ev_pending (a # l) (Ev_conn_destroy c) = ev_pending l (Ev_conn_destroy c)"
    using m M(1) by (simp_all add: es_def clt_mgr_conn_start_http_req_def emit_set_conn)
  let ?w = "set_conn c ?m (fold emit (rev es) w)"
  have sel: "calls (fold emit (rev es) w) = es @ calls w" "creqs (fold emit (rev es) w) = creqs w"
    "mgr (fold emit (rev es) w) = mgr w" "conns (fold emit (rev es) w) = conns w"
    "next_addr (fold emit (rev es) w) = next_addr w" for es
    by (induction es) auto
  have cc: "list_all (conn_call c) es" using es(2) by (auto simp: list_all_iff)
  have pd: "ev_pending (es @ calls w) (Ev_conn_destroy c) = ev_pending (calls w) (Ev_conn_destroy c)"
    using es(3) by (induction es) auto
  have "mgr_inv env D ?w"
    by (rule mgr_inv_conn [OF inv m, where m' = ?m and es = es])
      (use M cc limit_mono(1) [OF slack] in \<open>auto simp: sel pd limit_cong [of ?m m]\<close>)
  moreover have "quiet w ?w" by (rule quiet_conn [OF _ _ _ M(3,4) es(2)]) (simp_all add: sel)
  moreover have "phase_le w ?w"
    by (rule phase_le_conn [OF m, where m' = ?m and es = es]) (use cc in \<open>auto simp: sel\<close>)
  ultimately show ?thesis using es(1) by blast
qed

lemma cancel_http_req_ok:
  assumes inv: "mgr_inv env D w" and m: "conns w c = Some m"
  shows "\<exists>rc w'. clt_mgr_conn_cancel_http_req c w = Some (rc, w') \<and> mgr_inv env D w' \<and> quiet w w'
    \<and> phase_le w w' \<and> conns w' c = Some m"
proof (cases "pending_http_req m = 1")
  case True
  note M = mgr_inv_connD [OF inv m]
  let ?w = "emit (Event_del (Ev_http_req c)) w"
  have upd: "conns ?w = (conns w)(c \<mapsto> m)" using m by auto
  have "mgr_inv env D ?w"
    by (rule mgr_inv_conn [OF inv m upd, where es = "[Event_del (Ev_http_req c)]"])
      (use M limit_mono(2) [OF M(8)] in auto)
  moreover have "quiet w ?w" using M(3) by auto
  moreover have "phase_le w ?w"
    by (rule phase_le_conn [OF m upd, where es = "[Event_del (Ev_http_req c)]"]) auto
  ultimately show ?thesis using True M(1) m by (simp add: clt_mgr_conn_cancel_http_req_def)
next
  case False
  then show ?thesis using inv m by (simp add: clt_mgr_conn_cancel_http_req_def)
qed

lemma conn_destroy_sched_ok:
  assumes inv: "mgr_inv env D w" and m: "conns w c = Some m"
  shows "\<exists>w'. clt_mgr_conn_destroy c w = Some w' \<and> mgr_inv env D w' \<and> quiet w w' \<and> phase_le w w'
    \<and> conns w' = (conns w)(c \<mapsto> m\<lparr>is_dead := 1\<rparr>) \<and> mgr w' = mgr w"
proof -
  note M = mgr_inv_connD [OF inv m]
  let ?m = "m\<lparr>is_dead := 1\<rparr>"
  let ?es = "[Event_active (Ev_conn_destroy c), Event_add (Ev_conn_destroy c) None]"
  let ?w = "emit (Event_active (Ev_conn_destroy c)) (emit (Event_add (Ev_conn_destroy c) None)
     (set_conn c ?m w))"
  have "mgr_inv env D ?w"
    by (rule mgr_inv_conn [OF inv m, where m' = ?m and es = ?es])
      (use M in \<open>auto simp: limit_cong [of ?m m]\<close>)
  moreover have "quiet w ?w" by (rule quiet_conn [OF _ _ _ M(3,4), where es = ?es]) auto
  moreover have "phase_le w ?w" by (rule phase_le_conn [OF m, where m' = ?m and es = ?es]) auto
  moreover have "clt_mgr_conn_destroy c w = Some ?w"
    using m M(2) by (simp add: clt_mgr_conn_destroy_def)
  ultimately show ?thesis by simp
qed

end
