(* ===== verification/Mgr_Create.thy ===== *)
theory Mgr_Create
  imports Mgr_Invariant
begin

text \<open>
  Attempts to create a connection: what \<open>clt_conn_create\<close>,
  \<open>clt_mgr_conn_create\<close> and \<open>clt_mgr_conn_try_create\<close> do on every
  allocation outcome, and that the invariants survive all of them.
\<close>

section \<open>Creating a connection\<close>

lemma clt_conn_create_cases:
  assumes ev: "event_new_ok env" and fresh: "creqs w (next_addr w) = None"
  obtains (failed) w' where "clt_conn_create env ncb cbd (Some ip) hdr p w = Some (None, w')"
      "creqs w' = creqs w" "calls w' = calls w" "next_addr w \<le> next_addr w'"
      "clt_world.more w' = clt_world.more w"
  | (created) w' k y where
      "clt_conn_create env ncb cbd (Some ip) hdr p w = Some (Some (next_addr w), w')"
      "next_addr w \<le> k" "k < next_addr w'" "next_addr w < next_addr w'"
      "r_con y = Some k" "r_req y = None" "r_ev_timeout y = Some (Ev_timeout (next_addr w))"
      "r_host_hdr y = Some ip" "r_cb y" "r_cbdata y = cbd"
      "creqs w' = (creqs w)(next_addr w \<mapsto> y)"
      "calls w' = Event_new (Ev_timeout (next_addr w)) # Connection_set_timeouts k (5, 0) (5, 0)
         # Connection_set_hook k (next_addr w) # Connection_new k # calls w"
      "clt_world.more w' = clt_world.more w"
proof -
  have [simp]: "(creqs w)(next_addr w := None) = creqs w" using fresh by auto
  let ?n = "next_addr w"
  note defs = clt_conn_create_def clt_conn_create_error_def alloc_def set_creq_def Let_def
    free_creq_def client_req_zero_def
  let ?k = "Suc (Suc (Suc ?n))"
  let ?y = "client_req_zero\<lparr>r_host_ip := Some ip, r_host_hdr := Some ip, r_port := p,
     r_con := Some ?k, r_cb := True, r_cbdata := cbd, r_ev_timeout := Some (Ev_timeout ?n)\<rparr>"
  let ?w = "w\<lparr>next_addr := Suc (Suc ?k), creqs := (creqs w)(?n \<mapsto> ?y),
     calls := Event_new (Ev_timeout ?n) # Connection_set_timeouts ?k (5, 0) (5, 0)
         # Connection_set_hook ?k ?n # Connection_new ?k # calls w\<rparr>"
  show thesis
  proof (cases "env_ok env Calloc_req ?n \<and> env_ok env Strdup_host_ip (Suc ?n)
      \<and> env_ok env Strdup_host_hdr (Suc (Suc ?n)) \<and> env_ok env Evhtp_connection_new ?k")
    case True
    then have "clt_conn_create env ncb cbd (Some ip) hdr p w = Some (Some ?n, ?w)"
      using ev by (simp add: defs event_new_def event_new_ok_def emit_def)
    then show thesis by (rule created) (simp_all add: client_req_zero_def)
  next
    case False
    then consider "\<not> env_ok env Calloc_req ?n"
      | "env_ok env Calloc_req ?n" "\<not> env_ok env Strdup_host_ip (Suc ?n)"
      | "env_ok env Calloc_req ?n" "env_ok env Strdup_host_ip (Suc ?n)"
        "\<not> env_ok env Strdup_host_hdr (Suc (Suc ?n))"
      | "env_ok env Calloc_req ?n" "env_ok env Strdup_host_ip (Suc ?n)"
        "env_ok env Strdup_host_hdr (Suc (Suc ?n))" "\<not> env_ok env Evhtp_connection_new ?k"
      by blast
    then show thesis
    proof cases
      case 1
      then show thesis by (intro failed [of "w\<lparr>next_addr := Suc ?n\<rparr>"]) (simp_all add: defs)
    next
      case 2
      then show thesis by (intro failed [of "w\<lparr>next_addr := Suc (Suc ?n)\<rparr>"]) (simp_all add: defs)
    next
      case 3
      then show thesis
        by (intro failed [of "w\<lparr>next_addr := Suc (Suc (Suc ?n))\<rparr>"]) (simp_all add: defs)
    next
      case 4
      then show thesis
        by (intro failed [of "w\<lparr>next_addr := Suc ?k\<rparr>"]) (simp_all add: defs)
    qed
  qed
qed

lemma mgr_inv_upd:
  assumes inv: "mgr_inv env D w" and f: "counts_ok (f (mgr w))"
    "mgr_conn_list (f (mgr w)) = mgr_conn_list (mgr w)"
    "target_request_count (cfg (f (mgr w))) = target_request_count (cfg (mgr w))"
    "http_keepalive (cfg (f (mgr w))) = http_keepalive (cfg (mgr w))"
    "t_timerev (f (mgr w)) = t_timerev (mgr w)"
    "t_stat_timerev (f (mgr w)) = t_stat_timerev (mgr w)"
    "t_running_timerev (f (mgr w)) = t_running_timerev (mgr w)"
    "t_wait_timerev (f (mgr w)) = t_wait_timerev (mgr w)"
    "t_cleanup_timerev (f (mgr w)) = t_cleanup_timerev (mgr w)"
  shows "mgr_inv env D (upd_mgr f w)"
proof -
  have "limit_ok (cfg (f (mgr w))) = limit_ok (cfg (mgr w))"
    by (simp add: fun_eq_iff limit_ok_def f)
  moreover have "owner_of (upd_mgr f w) = owner_of w" by (simp add: owner_of_def fun_eq_iff)
  ultimately have "conn_ok D (upd_mgr f w) = conn_ok D w" by (simp add: fun_eq_iff conn_ok_def)
  then show ?thesis
    using inv f \<open>owner_of (upd_mgr f w) = owner_of w\<close>
    by (simp add: mgr_inv_def timers_ok_def links_ok_def)
qed

lemma phase_le_upd:
  "mgr_state (f (mgr w)) = mgr_state (mgr w) \<Longrightarrow>
   (cfg (f (mgr w)))\<lparr>ipv4_dst := ipv4_dst (cfg (mgr w))\<rparr> = cfg (mgr w) \<Longrightarrow>
   phase_le w (upd_mgr f w)"
  by (simp add: phase_le_def)

lemma mgr_inv_parts:
  assumes "mgr_inv env D w"
  shows "event_new_ok env" "counts_ok (mgr w)" "timers_ok w" "links_ok w"
    "conns w c = Some m \<Longrightarrow> conn_ok D w c m"
  using assms by (simp_all add: mgr_inv_def)

lemma fresh_conn:
  assumes "mgr_inv env D w" "next_addr w \<le> c"
  shows "conns w c = None" "\<not> ev_live (calls w) (Ev_http_req c)"
    "\<not> ev_live (calls w) (Ev_conn_destroy c)"
proof -
  show n: "conns w c = None"
    using mgr_inv_connD(5) [OF assms(1), of c] assms(2) by (cases "conns w c") fastforce+
  show "\<not> ev_live (calls w) (Ev_http_req c)" "\<not> ev_live (calls w) (Ev_conn_destroy c)"
    using mgr_inv_parts(4) [OF assms(1)] n unfolding links_ok_def by blast+
qed

text \<open>What a new connection adds to the world.\<close>

lemma conn_added:
  assumes inv: "mgr_inv env D w"
    and c: "next_addr w \<le> c" "c < next_addr w'" "next_addr w \<le> next_addr w'"
    and r: "next_addr w \<le> r" "creqs w r = None" "r_cbdata y = c"
    and m: "c_req m = Some r" "ev_new_http_req m = Some (Ev_http_req c)"
      "ev_conn_destroy m = Some (Ev_conn_destroy c)" "is_dead m = 0" "cur_req_count m = 0"
      "c_target_request_count m = target_request_count (cfg (mgr w))"
    and w': "conns w' = (conns w)(c \<mapsto> m)" "creqs w' = (creqs w)(r \<mapsto> y)"
      "calls w' = Event_new (Ev_conn_destroy c) # Event_new (Ev_http_req c) # l"
      "\<And>e. \<not> own_ev e \<Longrightarrow> ev_live l e = ev_live (calls w) e"
      "\<And>e. \<not> own_ev e \<Longrightarrow> ev_pending l e = ev_pending (calls w) e"
    and g: "mgr_conn_list (mgr w') = mgr_conn_list (mgr w) @ [c]" "counts_ok (mgr w')"
      "target_request_count (cfg (mgr w')) = target_request_count (cfg (mgr w))"
      "http_keepalive (cfg (mgr w')) = http_keepalive (cfg (mgr w))"
      "t_timerev (mgr w') = t_timerev (mgr w)" "t_stat_timerev (mgr w') = t_stat_timerev (mgr w)"
      "t_running_timerev (mgr w') = t_running_timerev (mgr w)"
      "t_wait_timerev (mgr w') = t_wait_timerev (mgr w)"
      "t_cleanup_timerev (mgr w') = t_cleanup_timerev (mgr w)"
  shows "mgr_inv env D w'"
proof -
  note fr = fresh_conn [OF inv c(1)]
  have lim: "limit_ok (cfg (mgr w')) = limit_ok (cfg (mgr w))"
    by (simp add: fun_eq_iff limit_ok_def g)
  have O: "owner_of w' = (owner_of w)(r := Some c)" "owner_of w r = None"
    using r by (auto simp: owner_of_def fun_eq_iff w'(2))
  have L: "ev_live (calls w') e = (e = Ev_http_req c \<or> e = Ev_conn_destroy c \<or> ev_live (calls w) e)"
    if "\<not> own_ev e" for e
    using that w'(4) unfolding w'(3) by auto
  have P: "ev_pending (calls w') e
      = (e \<noteq> Ev_http_req c \<and> e \<noteq> Ev_conn_destroy c \<and> ev_pending (calls w) e)"
    if "\<not> own_ev e" for e
    using that w'(5) unfolding w'(3) by auto
  have conn: "conn_ok D w' c' x" if x: "conns w' c' = Some x" for c' x
  proof (cases "c' = c")
    case True
    then have "limit_ok (cfg (mgr w)) x False" using x m w'(1) by (auto simp: limit_ok_def)
    then show ?thesis using True x m w'(1) c by (auto simp: conn_ok_def L O lim P)
  next
    case False
    then have "conn_ok D w c' x" using mgr_inv_parts(5) [OF inv] x w'(1) by simp
    moreover from this obtain r0 where "c_req x = Some r0" "owner_of w r0 = Some c'"
      by (auto simp: conn_ok_def)
    moreover from this have "owner_of w' r0 = Some c'" using O by auto
    ultimately show ?thesis using False c(3) by (auto simp: conn_ok_def L lim P)
  qed
  have "links_ok w'"
    unfolding links_ok_def
  proof (intro conjI allI impI)
    show "set (mgr_conn_list (mgr w')) = dom (conns w')"
      using mgr_inv_parts(4) [OF inv] by (simp add: links_ok_def g w'(1))
    show "\<exists>x. conns w' c' = Some x \<and> c_req x = Some r'" if o: "owner_of w' r' = Some c'" for r' c'
    proof (cases "r' = r")
      case True
      then show ?thesis using o m w'(1) by (simp add: O)
    next
      case False
      then have "owner_of w r' = Some c'" using o by (simp add: O)
      then show ?thesis using owner_conn [OF inv] fr(1) w'(1) by fastforce
    qed
    show "conns w' c' \<noteq> None"
      if "ev_live (calls w') (Ev_http_req c') \<or> ev_live (calls w') (Ev_conn_destroy c')" for c'
      using that mgr_inv_parts(4) [OF inv] w'(1) by (auto simp: L links_ok_def)
  qed
  moreover have "timers_ok w'" using mgr_inv_parts(3) [OF inv] by (simp add: timers_ok_def g L)
  ultimately show ?thesis using conn g(2) mgr_inv_parts(1) [OF inv] by (simp add: mgr_inv_def)
qed


lemma event_new_eq:
  "event_new_ok env \<Longrightarrow> event_new env e w
     = (Some e, emit (Event_new e) (w\<lparr>next_addr := Suc (next_addr w)\<rparr>))"
  by (simp add: event_new_ok_def event_new_def alloc_def)

text \<open>
  An attempt that fails leaves everything as it was, but for the cursor of the
  address array, the failure counter and the address counter. An attempt that
  succeeds adds one connection with a request queued on it.
\<close>

definition calls_unseen :: "log \<Rightarrow> log \<Rightarrow> bool" where
  \<comment> \<open>the events that exist and are pending are the same\<close>
  "calls_unseen l l' \<longleftrightarrow> proj_eq l l' \<and> ev_live l' = ev_live l
     \<and> (\<forall>e. ev_live l e \<longrightarrow> ev_pending l' e = ev_pending l e)"

lemma fail_calls:
  assumes "\<not> ev_live l (Ev_http_req c)" "\<not> ev_live l (Ev_conn_destroy c)"
  shows "calls_unseen l (Event_free (Ev_conn_destroy c) # Event_free (Ev_http_req c)
     # Event_new (Ev_conn_destroy c) # Event_new (Ev_http_req c) # l)"
  using assms by (auto simp: calls_unseen_def proj_eq_def fun_eq_iff)

lemma clt_inv_proj:
  assumes inv: "clt_inv K w" and "proj_eq (calls w) (calls w')" "creqs w' = creqs w"
    "next_addr w \<le> next_addr w'"
  shows "clt_inv K w'"
proof -
  have "quiet w (w\<lparr>calls := calls w'\<rparr>)" using assms by (simp add: quiet_def)
  then have "clt_inv K (w\<lparr>calls := calls w'\<rparr>)" by (rule clt_inv_quiet [OF _ inv])
  then show ?thesis by (rule clt_inv_next) (use assms in simp_all)
qed

lemma proj_eq_new: "\<not> own_ev e \<Longrightarrow> \<not> ev_live l e \<Longrightarrow> proj_eq l (Event_new e # l)"
  by (auto simp: proj_eq_def fun_eq_iff)

lemma calls_unseen_refl [simp]: "calls_unseen l l"
  by (simp add: calls_unseen_def)

lemma mgr_inv_unseen:
  assumes inv: "mgr_inv env D w" and w': "conns w' = conns w" "creqs w' = creqs w"
      "calls_unseen (calls w) (calls w')" "next_addr w \<le> next_addr w'"
    and g: "mgr_conn_list (mgr w') = mgr_conn_list (mgr w)" "counts_ok (mgr w')"
      "target_request_count (cfg (mgr w')) = target_request_count (cfg (mgr w))"
      "http_keepalive (cfg (mgr w')) = http_keepalive (cfg (mgr w))"
      "t_timerev (mgr w') = t_timerev (mgr w)" "t_stat_timerev (mgr w') = t_stat_timerev (mgr w)"
      "t_running_timerev (mgr w') = t_running_timerev (mgr w)"
      "t_wait_timerev (mgr w') = t_wait_timerev (mgr w)"
      "t_cleanup_timerev (mgr w') = t_cleanup_timerev (mgr w)"
  shows "mgr_inv env D w'"
proof -
  have lim: "limit_ok (cfg (mgr w')) = limit_ok (cfg (mgr w))"
    by (simp add: fun_eq_iff limit_ok_def g)
  have O: "owner_of w' = owner_of w" by (simp add: owner_of_def fun_eq_iff w')
  have L: "ev_live (calls w') = ev_live (calls w)"
    "ev_live (calls w) e \<Longrightarrow> ev_pending (calls w') e = ev_pending (calls w) e" for e
    using w'(3) by (auto simp: calls_unseen_def)
  have "conn_ok D w' c m" if "conns w' c = Some m" for c m
    using mgr_inv_parts(5) [OF inv, of c m] that w' by (auto simp: conn_ok_def L lim O)
  then show ?thesis
    using inv g by (simp add: mgr_inv_def timers_ok_def links_ok_def L O w')
qed

lemma phase_le_unseen:
  assumes inv: "mgr_inv env D w"
    and w': "\<And>e. mgr_ev e \<Longrightarrow> ev_pending (calls w') e = ev_pending (calls w) e"
    "mgr_state (mgr w') = mgr_state (mgr w)"
    "(cfg (mgr w'))\<lparr>ipv4_dst := ipv4_dst (cfg (mgr w))\<rparr> = cfg (mgr w)"
    "conns w' = conns w \<or> mgr_state (mgr w) \<in> {CLT_MGR_STATE_RUNNING, CLT_MGR_STATE_INIT}"
  shows "phase_le w w'"
  using w' by (auto simp: phase_le_def)

lemma mgr_ev_live: "mgr_inv env D w \<Longrightarrow> mgr_ev e \<Longrightarrow> ev_live (calls w) e"
  by (auto simp: mgr_inv_def timers_ok_def mgr_ev_def)

lemma own_ne: "\<not> own_ev e \<Longrightarrow> Ev_timeout r \<noteq> e"
  by auto

lemma conn_create_cases:
  assumes inv: "mgr_inv env D w" and ci: "clt_inv K w"
  obtains (failed) w' a where "clt_mgr_conn_create env ncb w = Some (None, w')"
      "conns w' = conns w" "creqs w' = creqs w" "calls_unseen (calls w) (calls w')"
      "next_addr w \<le> next_addr w'" "array_wf a" "addrs a = addrs (ipv4_dst (cfg (mgr w)))"
      "mgr w' = (mgr w)\<lparr>cfg := (cfg (mgr w))\<lparr>ipv4_dst := a\<rparr>\<rparr>"
  | (created) w' c r y m l a where "clt_mgr_conn_create env ncb w = Some (Some c, w')"
      "next_addr w \<le> c" "c < next_addr w'" "next_addr w \<le> next_addr w'"
      "next_addr w \<le> r" "creqs w r = None" "r_cbdata y = c"
      "c_req m = Some r" "ev_new_http_req m = Some (Ev_http_req c)"
      "ev_conn_destroy m = Some (Ev_conn_destroy c)" "is_dead m = 0" "cur_req_count m = 0"
      "c_target_request_count m = target_request_count (cfg (mgr w))"
      "conns w' = (conns w)(c \<mapsto> m)" "creqs w' = (creqs w)(r \<mapsto> y)"
      "calls w' = Event_new (Ev_conn_destroy c) # Event_new (Ev_http_req c) # l"
      "\<And>e. \<not> own_ev e \<Longrightarrow> ev_live l e = ev_live (calls w) e"
      "\<And>e. \<not> own_ev e \<Longrightarrow> ev_pending l e = ev_pending (calls w) e"
      "array_wf a" "addrs a = addrs (ipv4_dst (cfg (mgr w)))"
      "mgr w' = (mgr w)\<lparr>cfg := (cfg (mgr w))\<lparr>ipv4_dst := a\<rparr>,
          mgr_conn_list := mgr_conn_list (mgr w) @ [c]\<rparr>"
      "clt_inv K w'"
proof -
  let ?arr = "ipv4_dst (cfg (mgr w))" and ?c = "next_addr w"
  have ev: "event_new_ok env" by (rule mgr_inv_parts(1) [OF inv])
  have arr: "array_wf ?arr" "addrs ?arr \<noteq> []"
    using mgr_inv_parts(2) [OF inv] by (auto simp: counts_ok_def cfg_ok_def)
  define a where "a = ?arr\<lparr>arr_cur := (arr_cur ?arr + 1) mod arr_n ?arr\<rparr>"
  define ip where "ip = addrs ?arr ! nat (arr_cur ?arr)"
  have gn: "cfg_ipv4_array_get_next ?arr = Some (Some ip, a)"
    unfolding a_def ip_def by (rule get_next_spec [OF arr])
  have n: "0 < arr_n ?arr" using arr by (auto simp: array_wf_def addrs_def)
  have a: "array_wf a" "addrs a = addrs ?arr"
    using arr n by (auto simp: a_def array_wf_def addrs_def)
  note fr = fresh_conn [OF inv order_refl]
  show thesis
  proof (cases "env_ok env Calloc_conn ?c")
    case False
    show thesis
    proof (rule failed [of "w\<lparr>next_addr := Suc ?c\<rparr>" ?arr])
      show "clt_mgr_conn_create env ncb w = Some (None, w\<lparr>next_addr := Suc ?c\<rparr>)"
        using False by (simp add: clt_mgr_conn_create_def alloc_def)
    qed (use arr in simp_all)
  next
    case True
    define w1 where "w1 = upd_mgr (\<lambda>m. m\<lparr>cfg := (cfg m)\<lparr>ipv4_dst := a\<rparr>\<rparr>)
        (set_conn ?c clt_mgr_conn_zero (w\<lparr>next_addr := Suc ?c\<rparr>))"
    have w1: "creqs w1 = creqs w" "calls w1 = calls w" "next_addr w1 = Suc ?c"
      "conns w1 = (conns w)(?c \<mapsto> clt_mgr_conn_zero)"
      "mgr w1 = (mgr w)\<lparr>cfg := (cfg (mgr w))\<lparr>ipv4_dst := a\<rparr>\<rparr>"
      by (simp_all add: w1_def)
    have ci1: "clt_inv K w1" by (rule clt_inv_next [OF ci]) (simp_all add: w1)
    note cr = clt_mgr_conn_create_def alloc_def gn event_new_eq [OF ev] w1_def [symmetric]
    have f1: "creqs w1 (next_addr w1) = None" by (rule fresh_creq [OF ci1]) simp
    show thesis
    proof (cases rule: clt_conn_create_cases [OF ev f1, where ncb = ncb and cbd = ?c and ip = ip
          and hdr = "case host_hdr (cfg (mgr w)) of None \<Rightarrow> Some ip | Some h \<Rightarrow> Some h"
          and p = "port (cfg (mgr w))"])
      case (1 w2)
      note W = more_eqD [OF 1(5)]
      define w' where "w' = (emit (Event_free (Ev_conn_destroy ?c)) (emit (Event_free (Ev_http_req ?c))
          (emit (Event_new (Ev_conn_destroy ?c)) ((emit (Event_new (Ev_http_req ?c))
                 (w2\<lparr>next_addr := Suc (next_addr w2)\<rparr>))\<lparr>next_addr := Suc (Suc (next_addr w2))\<rparr>))))
          \<lparr>conns := (conns w2)(?c := None)\<rparr>"
      have "clt_mgr_conn_create env ncb w = Some (None, w')"
        using True 1(1) by (simp add: cr w'_def)
      then show thesis
      proof (rule failed [OF _ _ _ _ _ a])
        show "conns w' = conns w" using fr(1) by (auto simp: w'_def W w1)
        show "calls_unseen (calls w) (calls w')"
          using fail_calls [OF fr(2,3)] 1(3) by (simp add: w'_def w1)
      qed (use 1 in \<open>simp_all add: w'_def W w1\<close>)
    next
      case (2 w2 k y)
      note W = more_eqD [OF 2(13)]
      define w3 where "w3 = emit (Event_new (Ev_conn_destroy ?c)) ((emit (Event_new (Ev_http_req ?c))
                 (w2\<lparr>next_addr := Suc (next_addr w2)\<rparr>))\<lparr>next_addr := Suc (Suc (next_addr w2))\<rparr>)"
      define m where "m = clt_mgr_conn_zero\<lparr>c_req := Some (next_addr w1),
         ev_new_http_req := Some (Ev_http_req ?c), ev_conn_destroy := Some (Ev_conn_destroy ?c),
         c_target_request_count := target_request_count (cfg (mgr w3)),
         c_wait_time_pre_http_req_msec := wait_time_pre_http_req_msec (cfg (mgr w3))\<rparr>"
      define w' where "w' = upd_mgr (\<lambda>m. m\<lparr>mgr_conn_list := mgr_conn_list m @ [?c]\<rparr>)
         (set_conn ?c m w3)"
      have ci2: "clt_inv K w2"
        by (rule con_make [OF ci1 order_refl 2(4) 2(2,3) less_imp_le [OF 2(4)] 2(5,6,7) _ 2(9,11,12)])
          (simp add: 2(8))
      have "proj_eq (calls w2) (Event_new (Ev_http_req ?c) # calls w2)"
        by (rule proj_eq_new) (use fr 2(12) w1 in auto)
      moreover have "proj_eq (Event_new (Ev_http_req ?c) # calls w2) (calls w')"
        unfolding w'_def w3_def by simp (rule proj_eq_new; use fr 2(12) w1 in auto)
      ultimately have "clt_inv K w'"
        by (intro clt_inv_proj [OF ci2]) (auto intro: proj_eq_trans simp: w'_def w3_def)
      moreover have "clt_mgr_conn_create env ncb w = Some (Some ?c, w')"
        using True 2(1) by (simp add: cr w'_def w3_def m_def)
      ultimately show thesis
        by (intro created [of ?c w' "next_addr w1" y m "calls w2" a])
          (use 2 a f1 in \<open>simp_all add: w'_def w3_def m_def W w1 clt_mgr_conn_zero_def own_ne\<close>)
    qed
  qed
qed

lemma pacer_inc_timers [simp, frame]:
  "t_timerev (clt_mgr_reqrate_pacer_inc m) = t_timerev m"
  "t_stat_timerev (clt_mgr_reqrate_pacer_inc m) = t_stat_timerev m"
  "t_running_timerev (clt_mgr_reqrate_pacer_inc m) = t_running_timerev m"
  "t_wait_timerev (clt_mgr_reqrate_pacer_inc m) = t_wait_timerev m"
  "t_cleanup_timerev (clt_mgr_reqrate_pacer_inc m) = t_cleanup_timerev m"
  by (simp_all add: clt_mgr_reqrate_pacer_inc_def)

lemma upd_stats_sel [simp]:
  "conns (upd_stats f w) = conns w" "calls (upd_stats f w) = calls w"
  "creqs (upd_stats f w) = creqs w" "next_addr (upd_stats f w) = next_addr w"
  "mgr (upd_stats f w) = (mgr w)\<lparr>stats := f (stats (mgr w))\<rparr>"
  by (simp_all add: upd_stats_def)

lemma pacer_inv_cong:
  "target_request_rate (cfg m') = target_request_rate (cfg m) \<Longrightarrow>
   request_rate_error m' = request_rate_error m \<Longrightarrow> request_count_cur m' = request_count_cur m \<Longrightarrow>
   request_count_target m' = request_count_target m \<Longrightarrow> pacer_inv m' = pacer_inv m"
  by (simp add: pacer_inv_def)

lemma counts_pacer_inc:
  assumes "counts_ok m" "clt_mgr_reqrate_pacer_check m"
  shows "counts_ok (clt_mgr_reqrate_pacer_inc m)"
  using assms pacer_inc_inv(1) [of m] by (auto simp: counts_ok_def)

lemma counts_upd:
  assumes "counts_ok m"
    and "cfg m' = (cfg m)\<lparr>ipv4_dst := a\<rparr>" "array_wf a" "addrs a = addrs (ipv4_dst (cfg m))"
    and "mgr_conn_list m' = mgr_conn_list m" "nconn (stats m') = nconn (stats m)"
      "conn_count (stats m') = conn_count (stats m)"
      "req_count_ok (stats m') = req_statustype_200 (stats m') + req_statustype_302 (stats m')
          + req_statustype_other (stats m')"
      "request_rate_error m' = request_rate_error m" "request_count_cur m' = request_count_cur m"
      "request_count_target m' = request_count_target m"
  shows "counts_ok m'"
  using assms pacer_inv_cong [of m' m] by (simp add: counts_ok_def cfg_ok_def)

lemma check_create_connD:
  assumes "clt_mgr_check_create_conn m"
  shows "mgr_state m \<in> {CLT_MGR_STATE_RUNNING, CLT_MGR_STATE_INIT}"
    "nconn (stats m) < target_nconn (cfg m)"
    "target_total_nconn_count (cfg m) > 0 \<Longrightarrow>
       conn_count (stats m) < word_of_int (target_total_nconn_count (cfg m))"
  using assms by (auto simp: clt_mgr_check_create_conn_def not_le split: if_splits)

lemma counts_added:
  assumes ok: "counts_ok m" and chk: "clt_mgr_check_create_conn m" "clt_mgr_reqrate_pacer_check m"
    and c: "c \<notin> set (mgr_conn_list m)"
    and a: "array_wf a" "addrs a = addrs (ipv4_dst (cfg m))"
  shows "counts_ok (clt_mgr_reqrate_pacer_inc (m\<lparr>cfg := (cfg m)\<lparr>ipv4_dst := a\<rparr>,
      mgr_conn_list := mgr_conn_list m @ [c],
      stats := (stats m)\<lparr>nconn := c_int (nconn (stats m) + 1),
        conn_count := conn_count (stats m) + 1\<rparr>\<rparr>))" (is "counts_ok (clt_mgr_reqrate_pacer_inc ?m)")
proof (rule counts_pacer_inc)
  note C = check_create_connD [OF chk(1)]
  have "c_int (nconn (stats m) + 1) = nconn (stats m) + 1"
    by (rule c_int_id) (use ok C(2) in \<open>auto simp: counts_ok_def cfg_ok_def in_int_def INT_MIN_def\<close>)
  moreover have "conn_count (stats m) + 1 \<le> word_of_int (target_total_nconn_count (cfg m))"
    if "target_total_nconn_count (cfg m) > 0"
    using inc_le [OF C(3) [OF that]] .
  ultimately show "counts_ok ?m"
    using ok C(2) c a pacer_inv_cong [of ?m m] by (auto simp: counts_ok_def cfg_ok_def)
  show "clt_mgr_reqrate_pacer_check ?m"
    using chk(2) by (simp add: clt_mgr_reqrate_pacer_check_def split: if_splits)
qed

definition kept :: "world \<Rightarrow> world \<Rightarrow> bool" where
  \<comment> \<open>what a new connection leaves alone\<close>
  "kept w w' \<longleftrightarrow> creqs w \<subseteq>\<^sub>m creqs w' \<and> conns w \<subseteq>\<^sub>m conns w'"

lemma kept_refl [simp]: "kept w w"
  by (simp add: kept_def)

lemma start_http_req_frame:
  assumes "clt_mgr_conn_start_http_req c msec w = Some w'"
  shows "mgr w' = mgr w" "creqs w' = creqs w" "c' \<noteq> c \<Longrightarrow> conns w' c' = conns w c'"
  using assms by (auto simp: clt_mgr_conn_start_http_req_def bind_eq_Some_iff event_add_def
      event_active_def Let_def split: if_splits)

lemma try_create_ok:
  assumes inv: "mgr_inv env D w" and ci: "clt_inv K w"
  shows "\<exists>rc w'. clt_mgr_conn_try_create env ncb w = Some (rc, w') \<and> mgr_inv env D w'
    \<and> clt_inv K w' \<and> phase_le w w' \<and> kept w w'"
proof (cases "clt_mgr_check_create_conn (mgr w) \<and> clt_mgr_reqrate_pacer_check (mgr w)")
  case False
  then show ?thesis using inv ci by (auto simp: clt_mgr_conn_try_create_def)
next
  case chk: True
  note cnt = mgr_inv_parts(2) [OF inv]
  note st = check_create_connD(1) [OF chk [THEN conjunct1]]
  show ?thesis
  proof (cases rule: conn_create_cases [OF inv ci, of ncb])
    case (1 w1 a)
    define w' where "w' = upd_stats (\<lambda>s. s\<lparr>nconn_create_failed := nconn_create_failed s + 1\<rparr>) w1"
    have "clt_mgr_conn_try_create env ncb w = Some (-1, w')"
      using chk 1(1) by (simp add: clt_mgr_conn_try_create_def w'_def)
    moreover have "counts_ok (mgr w')"
      by (rule counts_upd [OF cnt, where a = a])
        (use cnt 1 in \<open>simp_all add: w'_def upd_stats_def counts_ok_def\<close>)
    then have "mgr_inv env D w'"
      by (intro mgr_inv_unseen [OF inv]) (use 1 in \<open>simp_all add: w'_def upd_stats_def\<close>)
    moreover have "clt_inv K w'"
      by (rule clt_inv_proj [OF ci]) (use 1 in \<open>simp_all add: w'_def upd_stats_def calls_unseen_def\<close>)
    moreover have "phase_le w w'"
      by (rule phase_le_unseen [OF inv])
        (use 1 mgr_ev_live [OF inv] in \<open>simp_all add: w'_def upd_stats_def calls_unseen_def\<close>)
    moreover have "kept w w'"
      using 1
      by (auto simp: kept_def w'_def upd_stats_def calls_unseen_def)
    ultimately show ?thesis by blast
  next
    case (2 w1 c r y m l a)
    define w2 where "w2 = upd_mgr clt_mgr_reqrate_pacer_inc
      (upd_stats (\<lambda>s. s\<lparr>conn_count := conn_count s + 1\<rparr>)
        (upd_stats (\<lambda>s. s\<lparr>nconn := c_int (nconn s + 1)\<rparr>) w1))"
    have w2: "creqs w2 = creqs w1" "conns w2 = conns w1" "calls w2 = calls w1"
      "next_addr w2 = next_addr w1"
      "mgr w2 = clt_mgr_reqrate_pacer_inc ((mgr w)\<lparr>cfg := (cfg (mgr w))\<lparr>ipv4_dst := a\<rparr>,
        mgr_conn_list := mgr_conn_list (mgr w) @ [c],
        stats := (stats (mgr w))\<lparr>nconn := c_int (nconn (stats (mgr w)) + 1),
          conn_count := conn_count (stats (mgr w)) + 1\<rparr>\<rparr>)"
      by (simp_all add: w2_def upd_stats_def 2(21))
    have fr: "conns w c = None" by (rule fresh_conn [OF inv 2(2)])
    have "c \<notin> set (mgr_conn_list (mgr w))"
      using fr mgr_inv_parts(4) [OF inv] by (auto simp: links_ok_def)
    then have cnt2: "counts_ok (mgr w2)"
      unfolding w2 using counts_added cnt chk 2(19,20) by blast
    have inv2: "mgr_inv env D w2"
      by (rule conn_added [OF inv 2(2) _ _ 2(5-13) _ _ _ 2(17,18) _ cnt2])
        (simp_all add: w2 2)
    have m2: "conns w2 c = Some m" using 2 by (simp add: w2)
    have "limit_ok (cfg (mgr w2)) m True"
      using 2(12,13) by (simp add: limit_ok_def w2)
    then obtain w3 where w3: "clt_mgr_conn_start_http_req c (c_wait_time_pre_http_req_msec m) w2
        = Some w3" "mgr_inv env D w3" "quiet w2 w3" "phase_le w2 w3"
      using start_http_req_ok [OF inv2 m2] by blast
    have "clt_inv K w2" by (rule clt_inv_next [OF 2(22)]) (simp_all add: w2)
    then have "clt_inv K w3" by (rule clt_inv_quiet [OF w3(3)])
    moreover have "phase_le w w2"
      by (rule phase_le_unseen [OF inv])
        (use st 2(16,18) mgr_ev_own in \<open>auto simp: w2 mgr_ev_def\<close>)
    then have "phase_le w w3" using w3(4) by (rule phase_le_trans)
    moreover have "clt_mgr_conn_try_create env ncb w = Some (0, w3)"
      using chk 2(1) m2 w3(1) w2(2)
      by (simp add: clt_mgr_conn_try_create_def w2_def [symmetric] Let_def)
    moreover have "conns w3 c' = conns w c'" if "conns w c' \<noteq> None" for c'
      using that fr start_http_req_frame(3) [OF w3(1), of c'] 2(14)
      by (cases "c' = c") (auto simp: w2)
    then have "kept w w3"
      using start_http_req_frame(2) [OF w3(1)] 2(6,15) by (auto simp: kept_def w2 map_le_def dom_def)
    ultimately show ?thesis using w3(2) by blast
  qed
qed

end
