(* ===== verification/Mgr_Safety.thy ===== *)
theory Mgr_Safety
  imports Mgr_Create
begin

text \<open>
  The callback of the manager keeps the contract of \<open>clt.c\<close>
  (the interpretation of \<open>notify_client\<close>), and issuing a request and
  destroying a connection keep the invariants.
\<close>

section \<open>The callback\<close>

lemma stats_ok:
  assumes inv: "mgr_inv env D w" and f: "nconn (f (stats (mgr w))) = nconn (stats (mgr w))"
    "conn_count (f (stats (mgr w))) = conn_count (stats (mgr w))"
    "req_count_ok (f (stats (mgr w))) = req_statustype_200 (f (stats (mgr w)))
       + req_statustype_302 (f (stats (mgr w))) + req_statustype_other (f (stats (mgr w)))"
  shows "mgr_inv env D (upd_stats f w)" "quiet w (upd_stats f w)" "phase_le w (upd_stats f w)"
proof -
  note cnt = mgr_inv_parts(2) [OF inv]
  have "counts_ok ((mgr w)\<lparr>stats := f (stats (mgr w))\<rparr>)"
    by (rule counts_upd [OF cnt, where a = "ipv4_dst (cfg (mgr w))"])
      (use cnt f in \<open>simp_all add: counts_ok_def cfg_ok_def\<close>)
  then show "mgr_inv env D (upd_stats f w)"
    unfolding upd_stats_def by (intro mgr_inv_upd [OF inv]) simp_all
  show "quiet w (upd_stats f w)" by (simp add: upd_stats_def)
  show "phase_le w (upd_stats f w)" unfolding upd_stats_def by (rule phase_le_upd) simp_all
qed

lemma ok_sum:
  "mgr_inv env D w \<Longrightarrow> req_count_ok (stats (mgr w)) = req_statustype_200 (stats (mgr w))
     + req_statustype_302 (stats (mgr w)) + req_statustype_other (stats (mgr w))"
  by (simp add: mgr_inv_def counts_ok_def)

lemma pacer_inc_ok:
  assumes inv: "mgr_inv env D w" and "clt_mgr_reqrate_pacer_check (mgr w)"
  shows "mgr_inv env D (upd_mgr clt_mgr_reqrate_pacer_inc w)"
    "phase_le w (upd_mgr clt_mgr_reqrate_pacer_inc w)"
proof -
  show "mgr_inv env D (upd_mgr clt_mgr_reqrate_pacer_inc w)"
    by (rule mgr_inv_upd [OF inv]) (use counts_pacer_inc [OF mgr_inv_parts(2) [OF inv]] assms in simp_all)
  show "phase_le w (upd_mgr clt_mgr_reqrate_pacer_inc w)" by (rule phase_le_upd) simp_all
qed

definition keeps :: "env \<Rightarrow> addr set \<Rightarrow> world \<Rightarrow> world \<Rightarrow> bool" where
  \<comment> \<open>a step of the manager that \<open>clt.c\<close> does not see\<close>
  "keeps env D w w' \<longleftrightarrow> mgr_inv env D w' \<and> quiet w w' \<and> phase_le w w'"

lemma keeps_trans: "keeps env D w w' \<Longrightarrow> keeps env D w' w'' \<Longrightarrow> keeps env D w w''"
  by (auto simp: keeps_def intro: quiet_trans phase_le_trans)

lemma cancel_destroy_ok:
  assumes inv: "mgr_inv env D w" and m: "conns w c = Some m"
  shows "\<exists>rc w1 w2. clt_mgr_conn_cancel_http_req c w = Some (rc, w1)
    \<and> clt_mgr_conn_destroy c w1 = Some w2 \<and> keeps env D w w2"
proof -
  obtain rc w1 where w1: "clt_mgr_conn_cancel_http_req c w = Some (rc, w1)" "keeps env D w w1"
    "conns w1 c = Some m"
    using cancel_http_req_ok [OF inv m] by (auto simp: keeps_def)
  obtain w2 where w2: "clt_mgr_conn_destroy c w1 = Some w2" "keeps env D w1 w2"
    using conn_destroy_sched_ok [of env D w1 c m] w1 by (auto simp: keeps_def)
  with w1 show ?thesis using keeps_trans by blast
qed

lemma check_httpD:
  assumes inv: "mgr_inv env D w" and m: "conns w c = Some m"
    and chk: "clt_mgr_conn_check_create_http_request (mgr w) m"
  shows "limit_ok (cfg (mgr w)) m True"
proof -
  have "limit_ok (cfg (mgr w)) m (ev_pending (calls w) (Ev_http_req c))"
    by (rule mgr_inv_connD(8) [OF inv m])
  then show ?thesis using chk
    by (auto simp: limit_ok_def clt_mgr_conn_check_create_http_request_def split: if_splits)
qed

lemma notify_quiet_ok:
  assumes inv: "mgr_inv env D w" and m: "conns w c = Some m"
    and ct: "ct \<noteq> CLT_NOTIFY_CONN_CLOSING"
  shows "\<exists>w'. clt_mgr_conn_notify_cb env r ct d c w = Some w' \<and> keeps env D w w'"
proof -
  note sum = ok_sum [OF inv]
  consider "ct = CLT_NOTIFY_REQUEST_DONE_OK" | "ct = CLT_NOTIFY_REQUEST_DONE_ERROR"
    | "ct = CLT_NOTIFY_REQUEST_TIMEOUT" | "ct = CLT_NOTIFY_REQ_DESTROYING"
    | "ct \<notin> {CLT_NOTIFY_REQUEST_DONE_OK, CLT_NOTIFY_REQUEST_DONE_ERROR,
        CLT_NOTIFY_REQUEST_TIMEOUT, CLT_NOTIFY_REQ_DESTROYING, CLT_NOTIFY_CONN_CLOSING}"
    using ct by auto
  then show ?thesis
  proof cases
    case 1
    let ?f = "\<lambda>s. mgr_statustype_update d (s\<lparr>req_count_ok := req_count_ok s + 1\<rparr>)"
    have "keeps env D w (upd_stats ?f w)"
      unfolding keeps_def by (intro conjI stats_ok [OF inv])
        (use sum in \<open>simp_all add: mgr_statustype_update_def\<close>)
    moreover have "upd_stats (mgr_statustype_update d)
        (upd_stats (\<lambda>s. s\<lparr>req_count_ok := req_count_ok s + 1\<rparr>) w) = upd_stats ?f w"
      by (simp add: upd_stats_def upd_mgr_def)
    ultimately show ?thesis using 1 m by (simp add: clt_mgr_conn_notify_cb_def Let_def)
  next
    case 2
    have "keeps env D w (upd_stats (\<lambda>s. s\<lparr>req_count_err := req_count_err s + 1\<rparr>) w)"
      unfolding keeps_def by (intro conjI stats_ok [OF inv]) (use sum in simp_all)
    then show ?thesis using 2 m by (simp add: clt_mgr_conn_notify_cb_def)
  next
    case 3
    let ?w = "upd_stats (\<lambda>s. s\<lparr>req_count_timeout := req_count_timeout s + 1\<rparr>) w"
    have k: "keeps env D w ?w"
      unfolding keeps_def by (intro conjI stats_ok [OF inv]) (use sum in simp_all)
    then obtain rc w1 w2 where "clt_mgr_conn_cancel_http_req c ?w = Some (rc, w1)"
      "clt_mgr_conn_destroy c w1 = Some w2" "keeps env D ?w w2"
      using cancel_destroy_ok [of env D ?w c m] m by (auto simp: keeps_def)
    then show ?thesis using 3 m keeps_trans [OF k]
      by (auto simp: clt_mgr_conn_notify_cb_def Let_def)
  next
    case 4
    show ?thesis
    proof (cases "clt_mgr_conn_check_create_http_request (mgr w) m
        \<and> clt_mgr_check_create_http_request (mgr w) \<and> clt_mgr_reqrate_pacer_check (mgr w)")
      case True
      let ?w = "upd_mgr clt_mgr_reqrate_pacer_inc w"
      have k: "keeps env D w ?w" using pacer_inc_ok [OF inv] True by (simp add: keeps_def)
      moreover have "limit_ok (cfg (mgr ?w)) m True" using check_httpD [OF inv m] True by simp
      ultimately show ?thesis
        using start_http_req_ok [of env D ?w c m "c_wait_time_pre_http_req_msec m"] True 4 m
          keeps_trans [OF k]
        by (auto simp: clt_mgr_conn_notify_cb_def keeps_def)
    next
      case False
      then show ?thesis using conn_destroy_sched_ok [OF inv m] 4 m
        by (auto simp: clt_mgr_conn_notify_cb_def keeps_def)
    qed
  next
    case 5
    then show ?thesis using inv m by (simp add: clt_mgr_conn_notify_cb_def keeps_def)
  qed
qed

lemma notify_closing_ok:
  assumes inv: "mgr_inv env D w" and ci: "clt_inv K w" and m: "conns w c = Some m"
  shows "\<exists>w'. clt_mgr_conn_notify_cb env r CLT_NOTIFY_CONN_CLOSING d c w = Some w'
    \<and> mgr_inv env D w' \<and> clt_inv K w' \<and> phase_le w w' \<and> creqs w \<subseteq>\<^sub>m creqs w'"
proof -
  obtain rc w1 w2 where w2: "clt_mgr_conn_cancel_http_req c w = Some (rc, w1)"
    "clt_mgr_conn_destroy c w1 = Some w2" "keeps env D w w2"
    using cancel_destroy_ok [OF inv m] by blast
  let ?w = "upd_stats (\<lambda>s. s\<lparr>conn_closing_count := conn_closing_count s + 1\<rparr>) w2"
  have inv2: "mgr_inv env D w2" using w2(3) by (simp add: keeps_def)
  have "keeps env D w2 ?w"
    unfolding keeps_def by (intro conjI stats_ok [OF inv2]) (use ok_sum [OF inv2] in simp_all)
  then have k: "keeps env D w ?w" using w2(3) keeps_trans by blast
  then have inv3: "mgr_inv env D ?w" and ci3: "clt_inv K ?w"
    using ci by (auto simp: keeps_def intro: clt_inv_quiet)
  obtain rc' w' where w': "clt_mgr_conn_try_create env no_cb ?w = Some (rc', w')"
    "mgr_inv env D w'" "clt_inv K w'" "phase_le ?w w'" "kept ?w w'"
    using try_create_ok [OF inv3 ci3] by blast
  have "phase_le w w'" using k w'(4) by (auto simp: keeps_def intro: phase_le_trans)
  moreover have "creqs w \<subseteq>\<^sub>m creqs w'" using k w'(5) by (auto simp: keeps_def kept_def quiet_def)
  ultimately show ?thesis using w' w2(1,2) m
    by (simp add: clt_mgr_conn_notify_cb_def Let_def)
qed

interpretation nc: notify_client "clt_mgr_conn_notify_cb env"
  "\<lambda>w. mgr_inv env D w \<and> phase_le w0 w" for env D w0
proof (unfold_locales, goal_cases)
  case (1 w w')
  then show ?case using mgr_inv_frame phase_le_frame phase_le_trans by blast
next
  case (2 ct w r x d)
  then obtain m where "conns w (r_cbdata x) = Some m"
    using owner_conn [of env D w r "r_cbdata x"] by (auto simp: owner_of_def)
  then show ?case using notify_quiet_ok [of env D w "r_cbdata x" m ct r d] 2 phase_le_trans
    by (auto simp: keeps_def)
next
  case (3 w K r x d)
  then obtain m where "conns w (r_cbdata x) = Some m"
    using owner_conn [of env D w r "r_cbdata x"] by (auto simp: owner_of_def)
  then obtain w' where w': "clt_mgr_conn_notify_cb env r CLT_NOTIFY_CONN_CLOSING d (r_cbdata x) w = Some w'"
    "mgr_inv env D w'" "clt_inv K w'" "phase_le w w'" "creqs w \<subseteq>\<^sub>m creqs w'"
    using notify_closing_ok 3 by blast
  moreover have "creqs w' r = Some x" using w'(5) 3 by (metis domI map_le_def)
  ultimately show ?case using 3 phase_le_trans by blast
qed

section \<open>Issuing a request\<close>

lemma owner_same_next: "owner_same w (w\<lparr>next_addr := Suc (next_addr w)\<rparr>)"
  by (simp add: owner_same_def)

lemma fold_emit_sel:
  "calls (fold emit es w) = rev es @ calls w" "creqs (fold emit es w) = creqs w"
  "next_addr (fold emit es w) = next_addr w"
  by (induction es arbitrary: w) auto

lemma owner_same_fold: "list_all own_call es \<Longrightarrow> owner_same w (fold emit es w)"
proof (induction es arbitrary: w)
  case (Cons e es)
  then show ?case using owner_same_trans [OF owner_same_emit] by fastforce
qed simp

lemma req_create_ok:
  assumes ci: "clt_inv {} w" and x: "creqs w r = Some x"
  shows "\<exists>rc w'. clt_req_create env r (Some u) ka w = Some (rc, w') \<and> clt_inv {} w'
    \<and> owner_same w w' \<and> next_addr w \<le> next_addr w'"
proof (cases "r_req x = None \<and> r_con x \<noteq> None")
  case False
  then show ?thesis using ci x by (auto simp: clt_req_create_def)
next
  case True
  then obtain k where k: "r_con x = Some k" "r_req x = None" by auto
  let ?n = "next_addr w"
  let ?w1 = "w\<lparr>next_addr := Suc ?n\<rparr>" let ?w2 = "w\<lparr>next_addr := Suc (Suc ?n)\<rparr>"
  have ci1: "clt_inv {} ?w1" "clt_inv {} ?w2" by (rule clt_inv_next [OF ci]; simp)+
  have os: "owner_same w ?w1" "owner_same w ?w2" by (simp_all add: owner_same_def)
  have set1: "clt_inv {} (set_creq r (x\<lparr>r_uri := v\<rparr>) w') \<and> owner_same w (set_creq r (x\<lparr>r_uri := v\<rparr>) w')"
    if "clt_inv {} w'" "owner_same w w'" "creqs w' r = Some x" for w' v
    using creq_rewrite [OF that(1,3)] owner_same_trans [OF that(2) owner_same_set_creq [OF that(3)]]
    by simp
  consider "\<not> env_ok env Strdup_uri ?n"
    | "env_ok env Strdup_uri ?n" "\<not> env_ok env Evhtp_request_new (Suc ?n)"
    | "env_ok env Strdup_uri ?n" "env_ok env Evhtp_request_new (Suc ?n)" by blast
  then show ?thesis
  proof cases
    case 1
    then show ?thesis using x k set1 [OF ci1(1) os(1), of None]
      by (simp add: clt_req_create_def alloc_def)
  next
    case 2
    have y: "x\<lparr>r_uri := Some u, r_req := None\<rparr> = x\<lparr>r_uri := Some u\<rparr>" using k by simp
    show ?thesis using 2 x k set1 [OF ci1(2) os(2), of "Some u"]
      by (simp add: clt_req_create_def alloc_def y)
  next
    case 3
    obtain h where h: "r_host_hdr x = Some h" using clt_invD(3) [OF ci x] by blast
    let ?q = "Suc ?n"
    let ?y = "x\<lparr>r_uri := Some u, r_req := Some ?q, r_is_keepalive := ka\<rparr>"
    let ?es = "Request_new ?q r # clt_req_headers ?q h ka @ clt_req_hooks ?q r
      @ [Make_request k ?q u]"
    let ?w3 = "set_creq r ?y ?w2"
    let ?w' = "fold emit ?es ?w3"
    have "owner_same ?w2 ?w3" using x by auto
    moreover have "owner_same ?w3 ?w'"
      by (rule owner_same_fold) (simp add: clt_req_headers_def clt_req_hooks_def)
    ultimately have "owner_same w ?w'" using os(2) owner_same_trans by blast
    moreover have "clt_inv {} ?w'"
      by (rule req_make [OF ci x k, where q = ?q and y = ?y and u = u and host = h and ka = ka])
        (use k in \<open>simp_all add: fold_emit_sel\<close>)
    ultimately show ?thesis using 3 x k h
      by (simp add: clt_req_create_def alloc_def Let_def fold_emit_sel)
  qed
qed

lemma http_req_event_ok:
  assumes inv: "mgr_inv env D w" and ci: "clt_inv {} w" and m: "conns w c = Some m"
    and lim: "limit_ok (cfg (mgr w)) m True" and np: "\<not> ev_pending (calls w) (Ev_http_req c)"
  shows "\<exists>w'. clt_mgr_conn_http_req_event env c w = Some w' \<and> mgr_inv env D w' \<and> clt_inv {} w'
    \<and> phase_le w w'"
proof -
  note M = mgr_inv_connD [OF inv m]
  obtain r x where r: "c_req m = Some r" "creqs w r = Some x" using M(6) by blast
  obtain u where u: "uri (cfg (mgr w)) = Some u"
    using mgr_inv_parts(2) [OF inv] by (auto simp: counts_ok_def cfg_ok_def)
  let ?m = "m\<lparr>pending_http_req := 0\<rparr>" let ?w1 = "set_conn c ?m w"
  have inv1: "mgr_inv env D ?w1"
    by (rule mgr_inv_conn [OF inv m, where m' = ?m and es = "[]"])
      (use M in \<open>auto simp: limit_cong [of ?m m]\<close>)
  have ph1: "phase_le w ?w1" by (rule phase_le_conn [OF m, where m' = ?m and es = "[]"]) auto
  have ci1: "clt_inv {} ?w1" by (rule clt_inv_quiet [OF _ ci]) simp
  obtain rc w2 where w2: "clt_req_create env r (Some u) (http_keepalive (cfg (mgr w))) ?w1
      = Some (rc, w2)" "clt_inv {} w2" "owner_same ?w1 w2"
    using req_create_ok [OF ci1, of r x env u "http_keepalive (cfg (mgr w))"] r by auto
  note S = owner_same_world [OF w2(3)]
  have inv2: "mgr_inv env D w2" by (rule mgr_inv_frame [OF inv1 w2(3)])
  have ph2: "phase_le w w2" using ph1 phase_le_frame [OF w2(3)] phase_le_trans by blast
  have c2: "conns w2 c = Some ?m" using S(2) by simp
  show ?thesis
  proof (cases "rc < 0")
    case True
    let ?w3 = "upd_stats (\<lambda>s. s\<lparr>req_count_create_err := req_count_create_err s + 1\<rparr>) w2"
    have "mgr_inv env D ?w3 \<and> quiet w2 ?w3 \<and> phase_le w2 ?w3"
      by (intro conjI stats_ok [OF inv2]) (use ok_sum [OF inv2] in simp_all)
    moreover have "clt_mgr_conn_http_req_event env c w = Some ?w3"
      using True m r w2(1) u by (simp add: clt_mgr_conn_http_req_event_def)
    ultimately show ?thesis using clt_inv_quiet [OF _ w2(2)] phase_le_trans [OF ph2] by blast
  next
    case False
    let ?m2 = "?m\<lparr>cur_req_count := c_int (cur_req_count m + 1)\<rparr>"
    let ?w3 = "set_conn c ?m2 w2"
    let ?w4 = "upd_stats (\<lambda>s. s\<lparr>req_count := req_count s + 1\<rparr>) ?w3"
    note M2 = mgr_inv_connD [OF inv2 c2]
    have np2: "\<not> ev_pending (calls w2) (Ev_http_req c)" using np S(4) by simp
    have lim2: "limit_ok (cfg (mgr w2)) ?m2 False"
    proof -
      have "in_int (target_request_count (cfg (mgr w)))"
        using mgr_inv_parts(2) [OF inv] by (simp add: counts_ok_def cfg_ok_def)
      then have "c_int (cur_req_count m + 1) = cur_req_count m + 1"
        if "target_request_count (cfg (mgr w)) > 0 \<or> http_keepalive (cfg (mgr w)) = 0"
        using that lim by (intro c_int_id) (auto simp: limit_ok_def in_int_def INT_MIN_def INT_MAX_def)
      then show ?thesis using lim by (auto simp: limit_ok_def S(1))
    qed
    have inv3: "mgr_inv env D ?w3"
      by (rule mgr_inv_conn [OF inv2 c2, where m' = ?m2 and es = "[]"])
        (use M2 lim2 np2 in auto)
    have ph3: "phase_le w2 ?w3"
      by (rule phase_le_conn [OF c2, where m' = ?m2 and es = "[]"]) auto
    have "mgr_inv env D ?w4 \<and> quiet ?w3 ?w4 \<and> phase_le ?w3 ?w4"
      by (intro conjI stats_ok [OF inv3]) (use ok_sum [OF inv3] in simp_all)
    moreover have "quiet w2 ?w3" by simp
    moreover have "clt_mgr_conn_http_req_event env c w = Some ?w4"
      using False m r w2(1) u c2 by (simp add: clt_mgr_conn_http_req_event_def)
    ultimately show ?thesis
      using clt_inv_quiet [OF _ w2(2)] quiet_trans phase_le_trans [OF ph2] phase_le_trans [OF ph3]
      by blast
  qed
qed

section \<open>Destroying a connection\<close>

lemma counts_removed:
  assumes ok: "counts_ok m" and c: "c \<in> set (mgr_conn_list m)"
    and m': "m' = m\<lparr>stats := (stats m)\<lparr>nconn := c_int (nconn (stats m) - 1)\<rparr>,
      mgr_conn_list := remove1 c (mgr_conn_list m)\<rparr>"
  shows "counts_ok m'"
proof -
  have n: "nconn (stats m) = int (length (mgr_conn_list m))" "0 < length (mgr_conn_list m)"
    using ok c by (auto simp: counts_ok_def)
  have "c_int (nconn (stats m) - 1) = nconn (stats m) - 1"
    by (rule c_int_id)
      (use n ok in \<open>auto simp: counts_ok_def cfg_ok_def in_int_def INT_MIN_def INT_MAX_def\<close>)
  moreover have "int (length (mgr_conn_list m) - 1) = nconn (stats m) - 1" using n by linarith
  ultimately show ?thesis
    using ok c m' pacer_inv_cong [of m' m] by (simp add: counts_ok_def length_remove1)
qed

lemma conn_removed:
  assumes inv: "mgr_inv env D w" and m: "conns w c = Some m" "c_req m = Some r"
    and D: "D \<subseteq> insert c D'"
    and w': "conns w' = (conns w)(c := None)" "creqs w' = (creqs w)(r := None)"
      "next_addr w' = next_addr w"
      "calls w' = Event_free (Ev_conn_destroy c) # Event_free (Ev_http_req c) # l"
      "\<And>e. \<not> own_ev e \<Longrightarrow> ev_live l e = ev_live (calls w) e"
      "\<And>e. \<not> own_ev e \<Longrightarrow> ev_pending l e = ev_pending (calls w) e"
      "mgr w' = (mgr w)\<lparr>stats := (stats (mgr w))\<lparr>nconn := c_int (nconn (stats (mgr w)) - 1)\<rparr>,
         mgr_conn_list := remove1 c (mgr_conn_list (mgr w))\<rparr>"
  shows "mgr_inv env D' w'"
proof -
  have cl: "c \<in> set (mgr_conn_list (mgr w))" by (rule mgr_inv_connD(9) [OF inv m(1)])
  have cnt: "counts_ok (mgr w')" by (rule counts_removed [OF mgr_inv_parts(2) [OF inv] cl w'(7)])
  have O: "owner_of w' = (owner_of w)(r := None)" by (simp add: owner_of_def fun_eq_iff w'(2))
  have ow: "owner_of w r = Some c" using mgr_inv_parts(5) [OF inv m(1)] m(2) by (simp add: conn_ok_def)
  have L: "ev_live (calls w') e = (e \<noteq> Ev_http_req c \<and> e \<noteq> Ev_conn_destroy c \<and> ev_live (calls w) e)"
    "ev_pending (calls w') e
      = (e \<noteq> Ev_http_req c \<and> e \<noteq> Ev_conn_destroy c \<and> ev_pending (calls w) e)"
    if "\<not> own_ev e" for e
    using that w'(5,6) unfolding w'(4) by auto
  have conn: "conn_ok D' w' c' x" if x: "conns w' c' = Some x" for c' x
  proof -
    have ne: "c' \<noteq> c" and "conn_ok D w c' x"
      using mgr_inv_parts(5) [OF inv] x w'(1) by (auto split: if_splits)
    moreover from this obtain r0 where "c_req x = Some r0" "owner_of w r0 = Some c'"
      by (auto simp: conn_ok_def)
    moreover from this have "owner_of w' r0 = Some c'" using O ow ne by auto
    ultimately show ?thesis using D by (auto simp: conn_ok_def L w'(3,7))
  qed
  have "links_ok w'"
    unfolding links_ok_def
  proof (intro conjI allI impI)
    show "set (mgr_conn_list (mgr w')) = dom (conns w')"
      using mgr_inv_parts(4,2) [OF inv] by (auto simp: links_ok_def w'(1,7) counts_ok_def)
    show "\<exists>x. conns w' c' = Some x \<and> c_req x = Some r'" if o: "owner_of w' r' = Some c'" for r' c'
    proof -
      have o': "owner_of w r' = Some c'" "r' \<noteq> r" using o by (auto simp: O split: if_splits)
      then obtain x where x: "conns w c' = Some x" "c_req x = Some r'"
        using owner_conn [OF inv] by blast
      then have "c' \<noteq> c" using m o'(2) by auto
      then show ?thesis using x w'(1) by simp
    qed
    show "conns w' c' \<noteq> None"
      if "ev_live (calls w') (Ev_http_req c') \<or> ev_live (calls w') (Ev_conn_destroy c')" for c'
      using that mgr_inv_parts(4) [OF inv] w'(1) by (auto simp: L links_ok_def)
  qed
  moreover have "timers_ok w'" using mgr_inv_parts(3) [OF inv] by (simp add: timers_ok_def w'(7) L)
  ultimately show ?thesis using conn cnt mgr_inv_parts(1) [OF inv] by (simp add: mgr_inv_def)
qed

lemma proj_eq_free: "ev_live l e \<Longrightarrow> \<not> own_ev e \<Longrightarrow> proj_eq l (Event_free e # l)"
  by (auto simp: proj_eq_def fun_eq_iff)

lemma drop_creq_sel [simp]:
  "creqs (drop_creq r w) = (creqs w)(r := None)" "next_addr (drop_creq r w) = next_addr w"
  "calls (drop_creq r w) = Event_free (Ev_timeout r) # Event_del (Ev_timeout r) # calls w"
  by (simp_all add: drop_creq_def)

lemma drop_creq_world [simp]:
  "conns (drop_creq r w) = conns w" "mgr (drop_creq r w) = mgr w"
  by (simp_all add: drop_creq_def)

lemma destroy_now_ok:
  assumes inv: "mgr_inv env {c} w" and ci: "clt_inv {} w" and m: "conns w c = Some m"
  shows "\<exists>w'. clt_mgr_conn_destroy_now env c w = Some w' \<and> mgr_inv env {} w' \<and> clt_inv {} w'
    \<and> phase_le w w' \<and> conns w' c = None"
proof -
  note M = mgr_inv_connD [OF inv m]
  obtain r x where r: "c_req m = Some r" "creqs w r = Some x" "r_cbdata x = c" using M(6) by blast
  let ?es = "[Event_del (Ev_conn_destroy c), Event_del (Ev_http_req c)]"
  define w1 where "w1 = emit (Event_del (Ev_conn_destroy c)) (emit (Event_del (Ev_http_req c)) w)"
  have upd: "conns w1 = (conns w)(c \<mapsto> m)" using m by (auto simp: w1_def)
  have inv1: "mgr_inv env {c} w1"
    by (rule mgr_inv_conn [OF inv m upd, where es = ?es])
      (use limit_mono(2) [OF M(8)] in \<open>auto simp: w1_def\<close>)
  have ph1: "phase_le w w1"
    by (rule phase_le_conn [OF m upd, where es = ?es]) (auto simp: w1_def)
  have "quiet w w1" by (rule quiet_conn [OF _ _ _ M(3,4), where es = ?es]) (auto simp: w1_def)
  then have ci1: "clt_inv {} w1" by (rule clt_inv_quiet [OF _ ci])
  obtain w2 y where w2: "clt_conn_destroy env (clt_mgr_conn_notify_cb env) r w1 = Some (drop_creq r w2)"
    "mgr_inv env {c} w2" "phase_le w1 w2" "clt_inv {} w2"
    "creqs w2 r = Some y" "r_con y = None" "r_cbdata y = c"
    using nc.conn_destroy_ok [of env "{c}" w1 w1 r x env] inv1 ci1 r by (auto simp: w1_def)
  obtain m2 where m2: "conns w2 c = Some m2" "c_req m2 = Some r"
    using owner_conn [OF w2(2), of r c] w2(5,7) by (auto simp: owner_of_def)
  note M2 = mgr_inv_connD [OF w2(2) m2(1)]
  define w4 where "w4 = emit (Event_free (Ev_conn_destroy c)) (emit (Event_free (Ev_http_req c))
     (drop_creq r w2))"
  define w' where "w' = (upd_mgr (\<lambda>m. m\<lparr>mgr_conn_list := remove1 c (mgr_conn_list m)\<rparr>)
     (upd_stats (\<lambda>s. s\<lparr>nconn := c_int (nconn s - 1)\<rparr>) w4))\<lparr>conns := (conns w2)(c := None)\<rparr>"
  have w': "creqs w' = (creqs w2)(r := None)" "conns w' = (conns w2)(c := None)"
    "next_addr w' = next_addr w2"
    "calls w' = Event_free (Ev_conn_destroy c) # Event_free (Ev_http_req c) # calls (drop_creq r w2)"
    by (simp_all add: w'_def w4_def)
  have ret: "clt_mgr_conn_destroy_now env c w = Some w'"
    using m r(1) M(1,2) M2(1,2,9) m2(1) w2(1)
    by (simp add: clt_mgr_conn_destroy_now_def w1_def [symmetric] w'_def w4_def tailq_remove_def)
  have "mgr_inv env {} w'"
    by (rule conn_removed [OF w2(2) m2 _ w'(2,1,3,4)])
      (use own_ne in \<open>auto simp: w'_def w4_def\<close>)
  moreover have "clt_inv {} w'"
  proof -
    have d: "clt_inv {} (drop_creq r w2)"
      by (rule creq_drop [OF w2(4-6)]) (simp_all add: drop_creq_def)
    have "proj_eq (calls (drop_creq r w2)) (Event_free (Ev_http_req c) # calls (drop_creq r w2))"
      by (rule proj_eq_free) (use M2(3) in simp_all)
    moreover have "proj_eq (Event_free (Ev_http_req c) # calls (drop_creq r w2)) (calls w')"
      unfolding w'(4) by (rule proj_eq_free) (use M2(4) in simp_all)
    ultimately have "proj_eq (calls (drop_creq r w2)) (calls w')" by (rule proj_eq_trans)
    then show ?thesis by (rule clt_inv_proj [OF d]) (simp_all add: w')
  qed
  moreover have "phase_le w2 w'"
    by (auto simp: phase_le_def w' mgr_ev_def) (simp_all add: w'_def w4_def)
  then have "phase_le w w'" using ph1 w2(3) phase_le_trans by blast
  ultimately show ?thesis using ret w'(2) by auto
qed

end
