(* ===== verification/Mgr_Phases.thy ===== *)
theory Mgr_Phases
  imports Mgr_Safety
begin

text \<open>
  The state machine of the manager: which timers are pending in which state,
  and what each timer does to the state.
\<close>

section \<open>The timers of the manager\<close>

fun mgr_call :: "libcall \<Rightarrow> bool" where
  "mgr_call (Event_add e tv) = mgr_ev e"
| "mgr_call (Event_del e) = mgr_ev e"
| "mgr_call (Fired e) = mgr_ev e"
| "mgr_call c = False"

lemma mgr_call_ev:
  assumes "mgr_call a"
  shows "ev_live (a # l) = ev_live l" "\<not> mgr_ev e \<Longrightarrow> ev_pending (a # l) e = ev_pending l e"
  using assms by (cases a; auto)+

lemma mgr_ev_simps [simp]: "mgr_ev T_timer" "mgr_ev T_stat" "mgr_ev T_running" "mgr_ev T_wait"
  "mgr_ev T_cleanup" "\<not> mgr_ev (Ev_http_req c)" "\<not> mgr_ev (Ev_conn_destroy c)"
  "\<not> mgr_ev (Ev_timeout r)"
  by (simp_all add: mgr_ev_def)

lemma mgr_inv_call:
  assumes inv: "mgr_inv env D w" and a: "mgr_call a"
  shows "mgr_inv env D (emit a w)"
proof -
  have "owner_of (emit a w) = owner_of w" by (simp add: owner_of_def fun_eq_iff)
  then have "conn_ok D (emit a w) = conn_ok D w"
    using mgr_call_ev [OF a] by (simp add: conn_ok_def fun_eq_iff)
  then show ?thesis
    using inv mgr_call_ev(1) [OF a] \<open>owner_of (emit a w) = owner_of w\<close>
    by (simp add: mgr_inv_def timers_ok_def links_ok_def)
qed

lemma quiet_call:
  assumes inv: "mgr_inv env D w" and a: "mgr_call a" "\<And>e. a = Fired e \<Longrightarrow> ev_pending (calls w) e"
  shows "quiet w (emit a w)"
  by (rule quiet_event) (use a mgr_ev_live [OF inv] in \<open>cases a; auto\<close>)+

definition same_cfg :: "world \<Rightarrow> world \<Rightarrow> bool" where
  \<comment> \<open>only the cursor of the address array moves\<close>
  "same_cfg w w' \<longleftrightarrow> (cfg (mgr w'))\<lparr>ipv4_dst := ipv4_dst (cfg (mgr w))\<rparr> = cfg (mgr w)"

lemma same_cfg_eq [simp]: "cfg (mgr w') = cfg (mgr w) \<Longrightarrow> same_cfg w w'"
  by (simp add: same_cfg_def)

lemma same_cfg_le: "phase_le w w' \<Longrightarrow> same_cfg w w'"
  by (simp add: same_cfg_def phase_le_def)

lemma same_cfg_trans: "same_cfg w w' \<Longrightarrow> same_cfg w' w'' \<Longrightarrow> same_cfg w w''"
  unfolding same_cfg_def by (metis mgr_config.surjective mgr_config.update_convs(10))

lemma emit_call_ok:
  assumes "mgr_inv env {} w" "clt_inv {} w" "mgr_call a"
    "\<And>e. a = Fired e \<Longrightarrow> ev_pending (calls w) e"
  shows "mgr_inv env {} (emit a w)" "clt_inv {} (emit a w)"
  using mgr_inv_call quiet_call assms clt_inv_quiet by blast+

lemma state_change_ok:
  assumes inv: "mgr_inv env {} w" and ci: "clt_inv {} w"
  shows "mgr_inv env {} (clt_mgr_state_change s w)" "clt_inv {} (clt_mgr_state_change s w)"
proof -
  have "counts_ok ((mgr w)\<lparr>mgr_state := s\<rparr>)"
    using mgr_inv_parts(2) [OF inv] pacer_inv_cong [of "(mgr w)\<lparr>mgr_state := s\<rparr>" "mgr w"]
    by (simp add: counts_ok_def)
  then show "mgr_inv env {} (clt_mgr_state_change s w)"
    unfolding clt_mgr_state_change_def by (intro mgr_inv_upd [OF inv]) simp_all
  show "clt_inv {} (clt_mgr_state_change s w)"
    unfolding clt_mgr_state_change_def by (rule clt_inv_quiet [OF _ ci]) simp
qed

lemma state_change_sel [simp]:
  "mgr (clt_mgr_state_change s w) = (mgr w)\<lparr>mgr_state := s\<rparr>"
  "conns (clt_mgr_state_change s w) = conns w" "calls (clt_mgr_state_change s w) = calls w"
  "creqs (clt_mgr_state_change s w) = creqs w"
  "next_addr (clt_mgr_state_change s w) = next_addr w"
  "prev_stats (clt_mgr_state_change s w) = prev_stats w"
  by (simp_all add: clt_mgr_state_change_def)

lemma timer_handles:
  assumes "mgr_inv env D w"
  shows "t_timerev (mgr w) = Some T_timer" "t_stat_timerev (mgr w) = Some T_stat"
    "t_running_timerev (mgr w) = Some T_running" "t_wait_timerev (mgr w) = Some T_wait"
    "t_cleanup_timerev (mgr w) = Some T_cleanup"
  using mgr_inv_parts(3) [OF assms] by (simp_all add: timers_ok_def)

lemma set_waiting_ok:
  assumes inv: "mgr_inv env {} w" and ci: "clt_inv {} w"
  shows "\<exists>w'. clt_mgr_state_set_waiting w = Some w' \<and> mgr_inv env {} w' \<and> clt_inv {} w'
    \<and> conns w' = conns w \<and> mgr w' = (mgr w)\<lparr>mgr_state := CLT_MGR_STATE_WAITING\<rparr>
    \<and> (\<exists>tv. calls w' = Event_del T_running # Event_add T_wait tv # calls w)"
proof -
  note T = timer_handles [OF inv]
  let ?w1 = "clt_mgr_state_change CLT_MGR_STATE_WAITING w"
  let ?w2 = "emit (Event_add T_wait (Some (waiting_period_sec (cfg (mgr w)), 0))) ?w1"
  let ?w3 = "emit (Event_del T_running) ?w2"
  note s1 = state_change_ok [OF inv ci, of CLT_MGR_STATE_WAITING]
  have s2: "mgr_inv env {} ?w2" "clt_inv {} ?w2" by (rule emit_call_ok [OF s1]; simp)+
  have s3: "mgr_inv env {} ?w3" "clt_inv {} ?w3" by (rule emit_call_ok [OF s2]; simp)+
  have "clt_mgr_state_set_waiting w = Some ?w3"
    by (simp add: clt_mgr_state_set_waiting_def clt_mgr_waiting_schedule_def T Let_def)
  with s3 show ?thesis by auto
qed

section \<open>The phases\<close>

definition phase_core :: "world \<Rightarrow> bool" where
  "phase_core w \<longleftrightarrow> (let p = ev_pending (calls w) in
     (case mgr_state (mgr w) of
        CLT_MGR_STATE_NONE \<Rightarrow> False
      | CLT_MGR_STATE_INIT \<Rightarrow> False
      | CLT_MGR_STATE_RUNNING \<Rightarrow> \<not> p T_wait \<and> \<not> p T_cleanup
          \<and> (0 \<le> running_period_sec (cfg (mgr w)) \<longrightarrow> p T_running)
      | CLT_MGR_STATE_WAITING \<Rightarrow> p T_wait \<and> \<not> p T_running \<and> \<not> p T_cleanup
      | CLT_MGR_STATE_CLEANUP \<Rightarrow> \<not> p T_wait \<and> \<not> p T_running \<and> p T_cleanup
      | CLT_MGR_STATE_CLEANUP_WAITING \<Rightarrow> \<not> p T_wait \<and> \<not> p T_running \<and> \<not> p T_cleanup
          \<and> (\<forall>c m. conns w c = Some m \<longrightarrow> is_dead m \<noteq> 0)
      | CLT_MGR_STATE_COMPLETED \<Rightarrow> \<not> p T_wait \<and> \<not> p T_running \<and> \<not> p T_cleanup
          \<and> conns w = Map.empty))"

definition ticking :: "world \<Rightarrow> bool" where
  \<comment> \<open>the two periodic timers\<close>
  "ticking w \<longleftrightarrow>
     (ev_pending (calls w) T_timer \<longleftrightarrow> mgr_state (mgr w) \<noteq> CLT_MGR_STATE_COMPLETED)
     \<and> (mgr_state (mgr w) \<noteq> CLT_MGR_STATE_COMPLETED \<longrightarrow> ev_pending (calls w) T_stat)
     \<and> (ev_pending (calls w) T_stat \<or> prev_stats w = stats (mgr w))"

lemma phase_core_le:
  assumes "phase_core w" "phase_le w w'"
  shows "phase_core w'"
proof -
  note L = assms(2) [unfolded phase_le_def]
  have p: "ev_pending (calls w') e = ev_pending (calls w) e" if "mgr_ev e" for e
    using that L by blast
  have s: "mgr_state (mgr w') = mgr_state (mgr w)" using L by simp
  have "running_period_sec ((cfg (mgr w'))\<lparr>ipv4_dst := ipv4_dst (cfg (mgr w))\<rparr>)
      = running_period_sec (cfg (mgr w))" using L by simp
  then have r: "running_period_sec (cfg (mgr w')) = running_period_sec (cfg (mgr w))" by simp
  show ?thesis
  proof (cases "mgr_state (mgr w) \<in> {CLT_MGR_STATE_RUNNING, CLT_MGR_STATE_INIT}")
    case True
    then show ?thesis using assms(1) by (auto simp: phase_core_def s p r Let_def)
  next
    case False
    then have d: "\<exists>m. conns w c = Some m \<and> (is_dead m \<noteq> 0 \<longrightarrow> is_dead m' \<noteq> 0)"
      if "conns w' c = Some m'" for c m'
      using that L by auto
    then have "conns w' = Map.empty" if "conns w = Map.empty"
      using that by (metis (no_types) not_Some_eq option.distinct(1) ext)
    with d assms(1) show ?thesis
      by (auto simp: phase_core_def s p r Let_def split: clt_mgr_state.splits)
  qed
qed

section \<open>The periodic timer\<close>

lemma create_loop_ok:
  assumes "mgr_inv env {} w" "clt_inv {} w"
  shows "\<exists>w'. create_loop env tn burst i j w = Some w' \<and> mgr_inv env {} w' \<and> clt_inv {} w'
    \<and> phase_le w w'"
  using assms
proof (induction env tn burst i j w rule: create_loop.induct)
  case (1 env tn burst i j w)
  obtain rc w1 where w1: "clt_mgr_conn_try_create env no_cb w = Some (rc, w1)"
    "mgr_inv env {} w1" "clt_inv {} w1" "phase_le w w1"
    using try_create_ok [OF 1(2,3)] by blast
  show ?case
  proof (cases "i < tn \<and> j \<le> burst \<and> \<not> rc < 0")
    case True
    then obtain w' where "create_loop env tn burst (i + 1) (j + 1) w1 = Some w'"
      "mgr_inv env {} w'" "clt_inv {} w'" "phase_le w1 w'"
      using 1(1) [OF _ w1(1) refl _ w1(2,3)] by auto
    then show ?thesis
      using True w1 phase_le_trans by (subst create_loop.simps) auto
  next
    case False
    then show ?thesis using w1 1(2,3) by (subst create_loop.simps) auto
  qed
qed

lemma pacer_update_timers [simp, frame]:
  "t_timerev (clt_mgr_reqrate_pacer_update m) = t_timerev m"
  "t_stat_timerev (clt_mgr_reqrate_pacer_update m) = t_stat_timerev m"
  "t_running_timerev (clt_mgr_reqrate_pacer_update m) = t_running_timerev m"
  "t_wait_timerev (clt_mgr_reqrate_pacer_update m) = t_wait_timerev m"
  "t_cleanup_timerev (clt_mgr_reqrate_pacer_update m) = t_cleanup_timerev m"
  by (simp_all add: clt_mgr_reqrate_pacer_update_def Let_def)

lemma pacer_update_ok:
  assumes inv: "mgr_inv env D w"
  shows "keeps env D w (upd_mgr clt_mgr_reqrate_pacer_update w)"
proof -
  have "counts_ok (clt_mgr_reqrate_pacer_update (mgr w))"
    using mgr_inv_parts(2) [OF inv] pacer_update_inv by (simp add: counts_ok_def)
  then have "mgr_inv env D (upd_mgr clt_mgr_reqrate_pacer_update w)"
    by (intro mgr_inv_upd [OF inv]) simp_all
  moreover have "phase_le w (upd_mgr clt_mgr_reqrate_pacer_update w)"
    by (rule phase_le_upd) simp_all
  ultimately show ?thesis by (simp add: keeps_def)
qed

inductive state_step :: "clt_mgr_state \<Rightarrow> clt_mgr_state \<Rightarrow> bool" where
  "state_step CLT_MGR_STATE_RUNNING CLT_MGR_STATE_WAITING"
| "state_step CLT_MGR_STATE_WAITING CLT_MGR_STATE_CLEANUP"
| "state_step CLT_MGR_STATE_CLEANUP CLT_MGR_STATE_CLEANUP_WAITING"
| "state_step CLT_MGR_STATE_CLEANUP_WAITING CLT_MGR_STATE_COMPLETED"

inductive_simps state_step_simps: "state_step s s'"
inductive_cases state_stepE: "state_step s s'"

text \<open>The states are ordered the way the declaration of the enumeration orders them.\<close>

primrec state_number :: "clt_mgr_state \<Rightarrow> nat" where
  "state_number CLT_MGR_STATE_NONE = 0"
| "state_number CLT_MGR_STATE_INIT = 1"
| "state_number CLT_MGR_STATE_RUNNING = 2"
| "state_number CLT_MGR_STATE_WAITING = 3"
| "state_number CLT_MGR_STATE_CLEANUP = 4"
| "state_number CLT_MGR_STATE_CLEANUP_WAITING = 5"
| "state_number CLT_MGR_STATE_COMPLETED = 6"

lemma state_number_inj: "state_number s = state_number t \<Longrightarrow> s = t"
  by (cases s; cases t) simp_all

instantiation clt_mgr_state :: linorder
begin

definition less_eq_clt_mgr_state :: "clt_mgr_state \<Rightarrow> clt_mgr_state \<Rightarrow> bool" where
  "less_eq_clt_mgr_state s t \<longleftrightarrow> state_number s \<le> state_number t"

definition less_clt_mgr_state :: "clt_mgr_state \<Rightarrow> clt_mgr_state \<Rightarrow> bool" where
  "less_clt_mgr_state s t \<longleftrightarrow> state_number s < state_number t"

instance
  by standard (auto simp: less_eq_clt_mgr_state_def less_clt_mgr_state_def dest: state_number_inj)

end

lemma state_step_less: "state_step s t \<Longrightarrow> s < t"
  by (elim state_stepE) (simp_all add: less_clt_mgr_state_def)

lemma state_running_ok:
  assumes inv: "mgr_inv env {} w" and ci: "clt_inv {} w" and ph: "phase_core w"
    and st: "mgr_state (mgr w) = CLT_MGR_STATE_RUNNING"
  shows "\<exists>w'. clt_mgr_timer_state_running env w = Some w' \<and> mgr_inv env {} w' \<and> clt_inv {} w'
    \<and> phase_core w' \<and> mgr_state (mgr w') \<in> {CLT_MGR_STATE_RUNNING, CLT_MGR_STATE_WAITING}
    \<and> ev_pending (calls w') T_timer = ev_pending (calls w) T_timer
    \<and> ev_pending (calls w') T_stat = ev_pending (calls w) T_stat \<and> same_cfg w w'"
proof -
  let ?w1 = "if target_request_rate (cfg (mgr w)) > 0
     then upd_mgr clt_mgr_reqrate_pacer_update w else w"
  have k1: "mgr_inv env {} ?w1" "clt_inv {} ?w1" "phase_le w ?w1"
    using pacer_update_ok [OF inv] inv ci by (auto simp: keeps_def intro: clt_inv_quiet [OF _ ci])
  obtain w2 where w2: "create_loop env (target_nconn (cfg (mgr ?w1))) (burst_conn (cfg (mgr ?w1)))
      (nconn (stats (mgr ?w1))) 0 ?w1 = Some w2" "mgr_inv env {} w2" "clt_inv {} w2"
    "phase_le ?w1 w2"
    using create_loop_ok [OF k1(1,2)] by blast
  have le: "phase_le w w2" using k1(3) w2(4) by (rule phase_le_trans)
  have ph2: "phase_core w2" by (rule phase_core_le [OF ph le])
  have st2: "mgr_state (mgr w2) = CLT_MGR_STATE_RUNNING"
    "ev_pending (calls w2) T_timer = ev_pending (calls w) T_timer"
    "ev_pending (calls w2) T_stat = ev_pending (calls w) T_stat"
    using le st by (simp_all add: phase_le_def)
  show ?thesis
  proof (cases "clt_mgr_check_finished (mgr w2)")
    case True
    obtain w3 tv where w3: "clt_mgr_state_set_waiting w2 = Some w3" "mgr_inv env {} w3"
      "clt_inv {} w3" "mgr w3 = (mgr w2)\<lparr>mgr_state := CLT_MGR_STATE_WAITING\<rparr>"
      "calls w3 = Event_del T_running # Event_add T_wait tv # calls w2"
      using set_waiting_ok [OF w2(2,3)] by blast
    moreover have "phase_core w3" using ph2 st2(1) by (simp add: phase_core_def w3 Let_def)
    moreover have "clt_mgr_timer_state_running env w = Some w3"
      using w2(1) True w3(1) by (simp add: clt_mgr_timer_state_running_def Let_def)
    moreover have "same_cfg w w3"
      by (rule same_cfg_trans [OF same_cfg_le [OF le]]) (simp add: w3(4))
    ultimately show ?thesis using st2 w3(4,5) by auto
  next
    case False
    then have "clt_mgr_timer_state_running env w = Some w2"
      using w2(1) by (simp add: clt_mgr_timer_state_running_def Let_def)
    then show ?thesis using w2 ph2 st2 same_cfg_le [OF le] by auto
  qed
qed

lemma state_waiting_ok:
  assumes inv: "mgr_inv env {} w" and ci: "clt_inv {} w" and ph: "phase_core w"
    and st: "mgr_state (mgr w) = CLT_MGR_STATE_WAITING"
  shows "\<exists>w'. clt_mgr_timer_state_waiting w = Some w' \<and> mgr_inv env {} w' \<and> clt_inv {} w'
    \<and> phase_core w' \<and> mgr_state (mgr w') \<in> {CLT_MGR_STATE_WAITING, CLT_MGR_STATE_CLEANUP}
    \<and> ev_pending (calls w') T_timer = ev_pending (calls w) T_timer
    \<and> ev_pending (calls w') T_stat = ev_pending (calls w) T_stat \<and> same_cfg w w'"
proof (cases "clt_mgr_check_waiting_finished (mgr w)")
  case True
  note T = timer_handles [OF inv]
  let ?w1 = "clt_mgr_state_change CLT_MGR_STATE_CLEANUP w"
  let ?w2 = "emit (Event_del T_wait) ?w1" let ?w3 = "emit (Event_add T_cleanup (Some (1, 0))) ?w2"
  note s1 = state_change_ok [OF inv ci, of CLT_MGR_STATE_CLEANUP]
  have s2: "mgr_inv env {} ?w2" "clt_inv {} ?w2" by (rule emit_call_ok [OF s1]; simp)+
  have s3: "mgr_inv env {} ?w3" "clt_inv {} ?w3" by (rule emit_call_ok [OF s2]; simp)+
  have "clt_mgr_timer_state_waiting w = Some ?w3"
    using True st by (simp add: clt_mgr_timer_state_waiting_def clt_mgr_waiting_deschedule_def
      clt_mgr_cleanup_schedule_def T Let_def)
  moreover have "phase_core ?w3" using ph st by (simp add: phase_core_def Let_def)
  ultimately show ?thesis using s3 by simp
next
  case False
  then show ?thesis using assms by (simp add: clt_mgr_timer_state_waiting_def)
qed

lemma nconn_zero:
  assumes "mgr_inv env D w" "nconn (stats (mgr w)) = 0"
  shows "conns w = Map.empty"
  using mgr_inv_parts(2,4) [OF assms(1)] assms(2) by (auto simp: counts_ok_def links_ok_def)

lemma state_cleanup_waiting_ok:
  assumes inv: "mgr_inv env {} w" and ci: "clt_inv {} w" and ph: "phase_core w"
    and st: "mgr_state (mgr w) = CLT_MGR_STATE_CLEANUP_WAITING"
  shows "\<exists>w'. clt_mgr_timer_state_cleanup_waiting w = Some w' \<and> mgr_inv env {} w' \<and> clt_inv {} w'
    \<and> phase_core w'
    \<and> (if nconn (stats (mgr w)) = 0 then mgr_state (mgr w') = CLT_MGR_STATE_COMPLETED
         \<and> \<not> ev_pending (calls w') T_timer
       else w' = w)
    \<and> ev_pending (calls w') T_stat = ev_pending (calls w) T_stat \<and> same_cfg w w'"
proof (cases "nconn (stats (mgr w)) = 0")
  case True
  note T = timer_handles [OF inv]
  let ?w1 = "clt_mgr_state_change CLT_MGR_STATE_COMPLETED w"
  let ?w2 = "emit (Event_del T_timer) ?w1"
  note s1 = state_change_ok [OF inv ci, of CLT_MGR_STATE_COMPLETED]
  have s2: "mgr_inv env {} ?w2" "clt_inv {} ?w2" by (rule emit_call_ok [OF s1]; simp)+
  have "clt_mgr_timer_state_cleanup_waiting w = Some ?w2"
    using True st by (simp add: clt_mgr_timer_state_cleanup_waiting_def T Let_def)
  moreover have "phase_core ?w2" using ph st nconn_zero [OF inv True] by (simp add: phase_core_def Let_def)
  ultimately show ?thesis using s2 True by simp
next
  case False
  then show ?thesis using assms by (simp add: clt_mgr_timer_state_cleanup_waiting_def)
qed

definition advances :: "clt_mgr_state \<Rightarrow> clt_mgr_state \<Rightarrow> bool" where
  "advances s s' \<longleftrightarrow> s' = s \<or> state_step s s'"

lemma clt_mgr_timer_ok:
  assumes inv: "mgr_inv env {} w" and ci: "clt_inv {} w" and ph: "phase_core w"
    and st: "mgr_state (mgr w) \<noteq> CLT_MGR_STATE_COMPLETED"
  shows "\<exists>w'. clt_mgr_timer env w = Some w' \<and> mgr_inv env {} w' \<and> clt_inv {} w' \<and> phase_core w'
    \<and> ev_pending (calls w') T_timer = (mgr_state (mgr w') \<noteq> CLT_MGR_STATE_COMPLETED)
    \<and> ev_pending (calls w') T_stat = ev_pending (calls w) T_stat \<and> same_cfg w w'
    \<and> advances (mgr_state (mgr w)) (mgr_state (mgr w'))"
proof -
  define body where "body = (case mgr_state (mgr w) of
                  CLT_MGR_STATE_RUNNING \<Rightarrow> clt_mgr_timer_state_running env w
                | CLT_MGR_STATE_WAITING \<Rightarrow> clt_mgr_timer_state_waiting w
                | CLT_MGR_STATE_CLEANUP \<Rightarrow> Some w
                | CLT_MGR_STATE_CLEANUP_WAITING \<Rightarrow> clt_mgr_timer_state_cleanup_waiting w
                | CLT_MGR_STATE_COMPLETED \<Rightarrow> Some w
                | _ \<Rightarrow> Some w)"
  have "\<exists>w1. body = Some w1 \<and> mgr_inv env {} w1 \<and> clt_inv {} w1 \<and> phase_core w1
    \<and> (mgr_state (mgr w1) = CLT_MGR_STATE_COMPLETED \<longrightarrow> \<not> ev_pending (calls w1) T_timer)
    \<and> ev_pending (calls w1) T_stat = ev_pending (calls w) T_stat \<and> same_cfg w w1
    \<and> advances (mgr_state (mgr w)) (mgr_state (mgr w1))"
  proof (cases "mgr_state (mgr w)")
    case CLT_MGR_STATE_RUNNING
    then show ?thesis using state_running_ok [OF inv ci ph]
      by (auto simp: body_def advances_def state_step_simps)
  next
    case CLT_MGR_STATE_WAITING
    then show ?thesis using state_waiting_ok [OF inv ci ph]
      by (auto simp: body_def advances_def state_step_simps)
  next
    case CLT_MGR_STATE_CLEANUP
    then show ?thesis using inv ci ph by (simp add: body_def advances_def)
  next
    case CLT_MGR_STATE_CLEANUP_WAITING
    then show ?thesis using state_cleanup_waiting_ok [OF inv ci ph] st
      by (auto simp: body_def advances_def state_step_simps split: if_splits)
  qed (use ph st in \<open>simp_all add: phase_core_def\<close>)
  then obtain w1 where w1: "body = Some w1" "mgr_inv env {} w1" "clt_inv {} w1" "phase_core w1"
    "mgr_state (mgr w1) = CLT_MGR_STATE_COMPLETED \<Longrightarrow> \<not> ev_pending (calls w1) T_timer"
    "ev_pending (calls w1) T_stat = ev_pending (calls w) T_stat" "same_cfg w w1"
    "advances (mgr_state (mgr w)) (mgr_state (mgr w1))"
    by blast
  show ?thesis
  proof (cases "mgr_state (mgr w1) = CLT_MGR_STATE_COMPLETED")
    case True
    then show ?thesis using w1 by (simp add: clt_mgr_timer_def body_def)
  next
    case False
    let ?w2 = "emit (Event_add T_timer (Some (0, 10000))) w1"
    have "mgr_inv env {} ?w2" "clt_inv {} ?w2" by (rule emit_call_ok [OF w1(2,3)]; simp)+
    moreover have "phase_core ?w2"
      using w1(4) by (simp add: phase_core_def Let_def split: clt_mgr_state.splits)
    moreover have "clt_mgr_timer env w = Some ?w2"
      using w1(1) False timer_handles(1) [OF w1(2)]
      by (simp add: clt_mgr_timer_def body_def [symmetric])
    moreover have "same_cfg w ?w2" by (rule same_cfg_trans [OF w1(7)]) simp
    ultimately show ?thesis using w1(6,8) False by simp
  qed
qed

section \<open>The other timers\<close>

lemma waiting_timer_ok:
  assumes inv: "mgr_inv env {} w" and ci: "clt_inv {} w"
    and st: "mgr_state (mgr w) = CLT_MGR_STATE_WAITING" and p: "\<not> ev_pending (calls w) T_wait"
      "\<not> ev_pending (calls w) T_running"
  shows "\<exists>w'. clt_mgr_waiting_timer w = Some w' \<and> mgr_inv env {} w' \<and> clt_inv {} w'
    \<and> phase_core w' \<and> mgr_state (mgr w') = CLT_MGR_STATE_CLEANUP
    \<and> ev_pending (calls w') T_timer = ev_pending (calls w) T_timer
    \<and> ev_pending (calls w') T_stat = ev_pending (calls w) T_stat \<and> same_cfg w w'"
proof -
  note T = timer_handles [OF inv]
  let ?w1 = "clt_mgr_state_change CLT_MGR_STATE_CLEANUP w"
  let ?w2 = "emit (Event_add T_cleanup (Some (1, 0))) ?w1"
  note s1 = state_change_ok [OF inv ci, of CLT_MGR_STATE_CLEANUP]
  have s2: "mgr_inv env {} ?w2" "clt_inv {} ?w2" by (rule emit_call_ok [OF s1]; simp)+
  moreover have "clt_mgr_waiting_timer w = Some ?w2"
    using st by (simp add: clt_mgr_waiting_timer_def clt_mgr_cleanup_schedule_def T)
  moreover have "phase_core ?w2" using p by (simp add: phase_core_def Let_def)
  ultimately show ?thesis by simp
qed

lemma destroy_all_ok:
  assumes "mgr_inv env D w" "set cs \<subseteq> dom (conns w)"
  shows "\<exists>w'. destroy_all cs w = Some w' \<and> keeps env D w w' \<and> mgr w' = mgr w
    \<and> (\<forall>c m. conns w' c = Some m \<longrightarrow>
         (c \<in> set cs \<or> (\<exists>m0. conns w c = Some m0 \<and> is_dead m0 \<noteq> 0)) \<longrightarrow> is_dead m \<noteq> 0)"
  using assms
proof (induction cs arbitrary: w)
  case Nil
  then show ?case by (auto simp: keeps_def)
next
  case (Cons c cs)
  then obtain m where m: "conns w c = Some m" by auto
  obtain w1 where w1: "clt_mgr_conn_destroy c w = Some w1" "mgr_inv env D w1" "keeps env D w w1"
    "conns w1 = (conns w)(c \<mapsto> m\<lparr>is_dead := 1\<rparr>)" "mgr w1 = mgr w"
    using conn_destroy_sched_ok [OF Cons(2) m] by (auto simp: keeps_def)
  have "set cs \<subseteq> dom (conns w1)" using Cons(3) w1(4) by auto
  then obtain w' where w': "destroy_all cs w1 = Some w'" "keeps env D w1 w'" "mgr w' = mgr w1"
    "\<And>c' m'. conns w' c' = Some m' \<Longrightarrow>
       c' \<in> set cs \<or> (\<exists>m0. conns w1 c' = Some m0 \<and> is_dead m0 \<noteq> 0) \<Longrightarrow> is_dead m' \<noteq> 0"
    using Cons.IH [OF w1(2)] by blast
  have "is_dead m' \<noteq> 0" if "conns w' c' = Some m'"
    "c' \<in> set (c # cs) \<or> (\<exists>m0. conns w c' = Some m0 \<and> is_dead m0 \<noteq> 0)" for c' m'
    using w'(4) [OF that(1)] that(2) m by (cases "c' = c") (auto simp: w1(4))
  then show ?case using w1(1,5) w'(1,3) keeps_trans [OF w1(3) w'(2)] by auto
qed

lemma cleanup_timer_ok:
  assumes inv: "mgr_inv env {} w" and ci: "clt_inv {} w"
    and st: "mgr_state (mgr w) = CLT_MGR_STATE_CLEANUP" and p: "\<not> ev_pending (calls w) T_wait"
      "\<not> ev_pending (calls w) T_running" "\<not> ev_pending (calls w) T_cleanup"
  shows "\<exists>w'. clt_mgr_cleanup_timer w = Some w' \<and> mgr_inv env {} w' \<and> clt_inv {} w'
    \<and> phase_core w' \<and> mgr_state (mgr w') = CLT_MGR_STATE_CLEANUP_WAITING
    \<and> ev_pending (calls w') T_timer = ev_pending (calls w) T_timer
    \<and> ev_pending (calls w') T_stat = ev_pending (calls w) T_stat \<and> same_cfg w w'"
proof -
  have l: "set (mgr_conn_list (mgr w)) = dom (conns w)"
    using mgr_inv_parts(4) [OF inv] by (simp add: links_ok_def)
  obtain w1 where w1: "destroy_all (mgr_conn_list (mgr w)) w = Some w1" "keeps env {} w w1"
    "mgr w1 = mgr w" "\<And>c m. conns w1 c = Some m \<Longrightarrow> c \<in> dom (conns w) \<Longrightarrow> is_dead m \<noteq> 0"
    using destroy_all_ok [OF inv, of "mgr_conn_list (mgr w)"] l by auto
  let ?w2 = "clt_mgr_state_change CLT_MGR_STATE_CLEANUP_WAITING w1"
  have k: "mgr_inv env {} w1" "clt_inv {} w1" "phase_le w w1"
    using w1(2) ci by (auto simp: keeps_def intro: clt_inv_quiet)
  have pe: "ev_pending (calls w1) e = ev_pending (calls w) e" if "mgr_ev e" for e
    using k(3) that by (simp add: phase_le_def)
  have "c \<in> dom (conns w)" if "conns w1 c = Some m" for c m
    using k(3) that st by (simp add: phase_le_def) blast
  then have "phase_core ?w2" using w1(4) p by (auto simp: phase_core_def pe Let_def)
  moreover have "clt_mgr_cleanup_timer w = Some ?w2"
    using st w1(1) by (simp add: clt_mgr_cleanup_timer_def)
  ultimately show ?thesis using state_change_ok [OF k(1,2)] pe w1(3) by simp
qed

lemma running_timer_ok:
  assumes inv: "mgr_inv env {} w" and ci: "clt_inv {} w" and p: "\<not> ev_pending (calls w) T_cleanup"
  shows "\<exists>w'. clt_mgr_running_timer w = Some w' \<and> mgr_inv env {} w' \<and> clt_inv {} w'
    \<and> phase_core w' \<and> mgr_state (mgr w') = CLT_MGR_STATE_WAITING
    \<and> ev_pending (calls w') T_timer = ev_pending (calls w) T_timer
    \<and> ev_pending (calls w') T_stat = ev_pending (calls w) T_stat \<and> same_cfg w w'"
proof -
  obtain w3 tv where w3: "clt_mgr_state_set_waiting w = Some w3" "mgr_inv env {} w3"
    "clt_inv {} w3" "mgr w3 = (mgr w)\<lparr>mgr_state := CLT_MGR_STATE_WAITING\<rparr>"
    "calls w3 = Event_del T_running # Event_add T_wait tv # calls w"
    using set_waiting_ok [OF inv ci] by blast
  moreover have "phase_core w3" using p by (simp add: phase_core_def w3 Let_def)
  ultimately show ?thesis by (simp add: clt_mgr_running_timer_def)
qed

end
