(* ===== verification/Event_System.thy ===== *)
theory Event_System
  imports Prelude
begin

text \<open>
  The contract the three event-driven parts of the program have in common (a
  worker thread, the client process and the server): in every state that satisfies
  an invariant, each input that can occur is handled, and the invariant holds
  again. \<open>pre\<close> collects what is assumed about the environment. The locale gives
  runs over sequences of inputs and the states that can be reached.
\<close>

locale event_system =
  fixes pre :: bool and init :: "'s \<Rightarrow> bool" and can :: "'i \<Rightarrow> 's \<Rightarrow> bool"
    and step :: "'i \<Rightarrow> 's \<Rightarrow> 's option" and ok :: "'s \<Rightarrow> bool"
  assumes init_ok: "pre \<Longrightarrow> init s \<Longrightarrow> ok s"
    and step_ok: "pre \<Longrightarrow> ok s \<Longrightarrow> can i s \<Longrightarrow> \<exists>s'. step i s = Some s' \<and> ok s'"
begin

inductive reach :: "'s \<Rightarrow> bool" where
  start: "init s \<Longrightarrow> reach s"
| next_state: "reach s \<Longrightarrow> can i s \<Longrightarrow> step i s = Some s' \<Longrightarrow> reach s'"

primrec run :: "'i list \<Rightarrow> 's \<Rightarrow> 's option" where
  "run [] s = Some s"
| "run (i # is) s = (if can i s then do { s \<leftarrow> step i s; run is s } else None)"

lemma reach_ok: "reach s \<Longrightarrow> pre \<Longrightarrow> ok s"
proof (induction rule: reach.induct)
  case (start s)
  then show ?case by (simp add: init_ok)
next
  case (next_state s i s')
  then show ?case using step_ok [of s i] by auto
qed

lemma progress: "pre \<Longrightarrow> reach s \<Longrightarrow> can i s \<Longrightarrow> \<exists>s'. step i s = Some s' \<and> reach s'"
  using step_ok [of s i] reach_ok [of s] reach.next_state [of s i] by blast

lemma run_append: "run (is @ js) s = do { s \<leftarrow> run is s; run js s }"
  by (induction "is" arbitrary: s) (auto split: bind_splits)

lemma run_reach: "reach s \<Longrightarrow> run is s = Some s' \<Longrightarrow> reach s'"
proof (induction "is" arbitrary: s)
  case (Cons i "is")
  then obtain s1 where "can i s" "step i s = Some s1" "run is s1 = Some s'"
    by (auto simp: bind_eq_Some_iff split: if_splits)
  then show ?case using Cons.IH reach.next_state [OF Cons.prems(1)] by blast
qed simp

end

end
