(* ===== verification/Worker.thy ===== *)
theory Worker
  imports Mgr_Phases Event_System
begin

text \<open>
  One worker thread: \<open>clt_mgr_setup\<close> and \<open>clt_mgr_start\<close>, then the event
  loop. A step of the loop is an input: an event fires, or libevhtp runs one of
  the installed hooks or the completion callback of a request. An input is
  enabled when the log allows it (the event is pending, the hook is installed
  and its object exists); inputs come in any order. \<open>worker_ok\<close> holds at the
  start and is kept by every input (\<open>deliver_ok\<close>).
\<close>

section \<open>What the libraries can do\<close>

datatype input =
    Fire ev
  | Error_hook addr bool
  | Request_fini_hook addr
  | New_chunk_hook addr u64
  | Chunk_done_hook addr u64
  | Chunks_done_hook addr
  | Headers_start_hook addr
  | Conn_fini_hook addr
  | Request_done addr int

fun enabled :: "log \<Rightarrow> input \<Rightarrow> bool" where
  "enabled l (Fire e) = (ev_live l e \<and> ev_pending l e)"
| "enabled l (Error_hook q tmo) = (req_live l q \<and> req_hook l q on_error \<noteq> None)"
| "enabled l (Request_fini_hook q) = (req_live l q \<and> req_hook l q on_request_fini \<noteq> None)"
| "enabled l (New_chunk_hook q n) = (req_live l q \<and> req_hook l q on_new_chunk \<noteq> None)"
| "enabled l (Chunk_done_hook q n) = (req_live l q \<and> req_hook l q on_chunk_complete \<noteq> None)"
| "enabled l (Chunks_done_hook q) = (req_live l q \<and> req_hook l q on_chunks_complete \<noteq> None)"
| "enabled l (Headers_start_hook q) = (req_live l q \<and> req_hook l q on_headers_start \<noteq> None)"
| "enabled l (Conn_fini_hook k) = (con_live l k \<and> con_hook l k \<noteq> None)"
| "enabled l (Request_done q status) = (req_live l q \<and> req_con l q \<noteq> None \<and> req_arg l q \<noteq> None)"

definition clt_mgr_stats_notify :: "mgr_stats \<Rightarrow> world \<Rightarrow> world" where
  "clt_mgr_stats_notify st w =
     (let stats_diff = mgr_stats_diff (prev_stats w) st mgr_stats_zero
      in w\<lparr>prev_stats := mgr_stats_copy st (prev_stats w)\<rparr>)"

definition fire :: "env \<Rightarrow> ev \<Rightarrow> world \<Rightarrow> world option" where
  \<comment> \<open>the callbacks given to \<open>evtimer_new\<close> and \<open>event_new\<close>\<close>
  "fire env e w = (case e of
      Ev_http_req c \<Rightarrow> clt_mgr_conn_http_req_event env c w
    | Ev_conn_destroy c \<Rightarrow> clt_mgr_conn_destroy_event env c w
    | Ev_timeout r \<Rightarrow> clt_conn_timeout (clt_mgr_conn_notify_cb env) r w
    | T_timer \<Rightarrow> clt_mgr_timer env w
    | T_stat \<Rightarrow> clt_mgr_stat_timer clt_mgr_stats_notify w
    | T_running \<Rightarrow> clt_mgr_running_timer w
    | T_wait \<Rightarrow> clt_mgr_waiting_timer w
    | T_cleanup \<Rightarrow> clt_mgr_cleanup_timer w)"

fun deliver :: "env \<Rightarrow> input \<Rightarrow> world \<Rightarrow> world option" where
  "deliver env (Fire e) w = fire env e (emit (Fired e) w)"
| "deliver env (Error_hook q tmo) w =
     do { r \<leftarrow> req_hook (calls w) q on_error;
          clt_upstream_error (clt_mgr_conn_notify_cb env) q tmo r w }"
| "deliver env (Request_fini_hook q) w =
     do { r \<leftarrow> req_hook (calls w) q on_request_fini;
          w \<leftarrow> clt_upstream_fini (clt_mgr_conn_notify_cb env) q r w;
          Some (emit (Lib_request_freed q) w) }"
| "deliver env (New_chunk_hook q n) w =
     do { r \<leftarrow> req_hook (calls w) q on_new_chunk; clt_upstream_new_chunk q r n w }"
| "deliver env (Chunk_done_hook q n) w =
     do { r \<leftarrow> req_hook (calls w) q on_chunk_complete; clt_upstream_chunk_done q r n w }"
| "deliver env (Chunks_done_hook q) w =
     do { r \<leftarrow> req_hook (calls w) q on_chunks_complete; clt_upstream_chunks_done q r w }"
| "deliver env (Headers_start_hook q) w =
     do { r \<leftarrow> req_hook (calls w) q on_headers_start; clt_upstream_headers_start q r w }"
| "deliver env (Conn_fini_hook k) w =
     do { r \<leftarrow> con_hook (calls w) k;
          w \<leftarrow> clt_upstream_conn_fini (clt_mgr_conn_notify_cb env) k r w;
          Some (emit (Lib_connection_freed k) w) }"
| "deliver env (Request_done q status) w =
     do { r \<leftarrow> req_arg (calls w) q;
          clt_req_cb (clt_mgr_conn_notify_cb env) q r status w }"

section \<open>A worker thread\<close>

definition clt_mgr_zero :: "mgr_config \<Rightarrow> clt_mgr" where
  \<comment> \<open>a manager from calloc, with the configuration \<open>g\<close>\<close>
  "clt_mgr_zero g = \<lparr>mgr_state = CLT_MGR_STATE_NONE, mgr_conn_list = [], t_timerev = None,
     t_stat_timerev = None, t_running_timerev = None, t_wait_timerev = None,
     t_cleanup_timerev = None, cfg = g, request_rate_error = 0, request_count_cur = 0,
     request_count_target = 0, stats = mgr_stats_zero\<rparr>"

definition worker_zero :: "mgr_config \<Rightarrow> world" where
  "worker_zero g = \<lparr>creqs = Map.empty, calls = [], next_addr = 0, mgr = clt_mgr_zero g,
     conns = Map.empty, prev_stats = mgr_stats_zero\<rparr>"

definition worker_start :: "env \<Rightarrow> mgr_config \<Rightarrow> world option" where
  \<comment> \<open>a worker as \<open>main\<close> sets it up and \<open>clt_mgr_thread_run\<close> starts it\<close>
  "worker_start env g =
     (let (rc, w) = clt_mgr_setup env (worker_zero mgr_config_zero);
          w = upd_mgr (\<lambda>m. m\<lparr>cfg := g\<rparr>) w
      in clt_mgr_start w)"

inductive reachable :: "env \<Rightarrow> mgr_config \<Rightarrow> world \<Rightarrow> bool" for env g where
  start: "worker_start env g = Some w \<Longrightarrow> reachable env g w"
| step: "reachable env g w \<Longrightarrow> enabled (calls w) i \<Longrightarrow> deliver env i w = Some w' \<Longrightarrow>
    reachable env g w'"

primrec deliver_all :: "env \<Rightarrow> input list \<Rightarrow> world \<Rightarrow> world option" where
  "deliver_all env [] w = Some w"
| "deliver_all env (i # is) w =
     (if enabled (calls w) i then do { w \<leftarrow> deliver env i w; deliver_all env is w } else None)"

definition worker_ok :: "env \<Rightarrow> mgr_config \<Rightarrow> world \<Rightarrow> bool" where
  "worker_ok env g w \<longleftrightarrow> mgr_inv env {} w \<and> clt_inv {} w \<and> phase_core w \<and> ticking w
     \<and> (cfg (mgr w))\<lparr>ipv4_dst := ipv4_dst g\<rparr> = g"

section \<open>Preservation\<close>

lemma worker_okD:
  assumes "worker_ok env g w"
  shows "mgr_inv env {} w" "clt_inv {} w" "phase_core w" "ticking w"
    "(cfg (mgr w))\<lparr>ipv4_dst := ipv4_dst g\<rparr> = g"
  using assms by (simp_all add: worker_ok_def)

lemma cfg_chain:
  assumes "(cfg (mgr w))\<lparr>ipv4_dst := ipv4_dst g\<rparr> = g" "same_cfg w w'"
  shows "(cfg (mgr w'))\<lparr>ipv4_dst := ipv4_dst g\<rparr> = g"
  using assms unfolding same_cfg_def by (metis mgr_config.surjective mgr_config.update_convs(10))

lemma worker_ok_le:
  assumes ok: "worker_ok env g w" and st: "mgr_state (mgr w) \<noteq> CLT_MGR_STATE_COMPLETED"
    and w': "mgr_inv env {} w'" "clt_inv {} w'" "phase_le w w'"
  shows "worker_ok env g w' \<and> advances (mgr_state (mgr w)) (mgr_state (mgr w'))"
proof -
  note O = worker_okD [OF ok]
  have "phase_core w'" by (rule phase_core_le [OF O(3) w'(3)])
  moreover have "ticking w'" using O(4) st w'(3) by (simp add: ticking_def phase_le_def)
  moreover have "mgr_state (mgr w') = mgr_state (mgr w)" using w'(3) by (simp add: phase_le_def)
  ultimately show ?thesis
    using w' cfg_chain [OF O(5) same_cfg_le [OF w'(3)]] by (simp add: worker_ok_def advances_def)
qed

lemma worker_ok_timer:
  assumes ok: "worker_ok env g w"
    and w': "mgr_inv env {} w'" "clt_inv {} w'" "phase_core w'"
      "ev_pending (calls w') T_timer = (mgr_state (mgr w') \<noteq> CLT_MGR_STATE_COMPLETED)"
      "ev_pending (calls w') T_stat" "same_cfg w w'"
  shows "worker_ok env g w'"
  using w' cfg_chain [OF worker_okD(5) [OF ok] w'(6)] by (simp add: worker_ok_def ticking_def)

text \<open>Once the manager has completed, nothing but the statistics timer is left.\<close>

lemma no_conns:
  assumes "mgr_inv env D w" "clt_inv {} w" "conns w = Map.empty"
  shows "creqs w = Map.empty" "\<not> con_live (calls w) k" "\<not> req_live (calls w) q"
    "\<not> ev_live (calls w) (Ev_timeout r)" "\<not> ev_live (calls w) (Ev_http_req c)"
    "\<not> ev_live (calls w) (Ev_conn_destroy c)"
proof -
  have n: "creqs w r = None" for r
    using owner_conn [OF assms(1), of r] assms(3) by (cases "creqs w r") (auto simp: owner_of_def)
  then show "creqs w = Map.empty" by auto
  have "rcon (creqs w) r = None" "rreq (creqs w) r = None" for r by (simp_all add: rcon_def rreq_def n)
  then show "\<not> con_live (calls w) k" "\<not> req_live (calls w) q" "\<not> ev_live (calls w) (Ev_timeout r)"
    using clt_inv_parts(4,6,7) [OF assms(2)] n by (auto simp: con_owned_def req_owned_def)
  show "\<not> ev_live (calls w) (Ev_http_req c)" "\<not> ev_live (calls w) (Ev_conn_destroy c)"
    using mgr_inv_parts(4) [OF assms(1)] assms(3) by (auto simp: links_ok_def)
qed

lemma completed_enabled:
  assumes ok: "worker_ok env g w" and st: "mgr_state (mgr w) = CLT_MGR_STATE_COMPLETED"
    and en: "enabled (calls w) i"
  shows "i = Fire T_stat"
proof -
  note O = worker_okD [OF ok]
  have c: "conns w = Map.empty" using O(3) st by (simp add: phase_core_def Let_def)
  note N = no_conns [OF O(1,2) c]
  show ?thesis
  proof (cases i)
    case (Fire e)
    then show ?thesis using en N O(3,4) st
      by (cases e) (auto simp: phase_core_def ticking_def Let_def)
  qed (use en N in auto)
qed

lemma fired_conn_ok:
  assumes ok: "mgr_inv env {} w" "clt_inv {} w" and e: "e \<in> {Ev_http_req c, Ev_conn_destroy c}"
    and en: "ev_live (calls w) e" "ev_pending (calls w) e"
  obtains m where "conns w c = Some m" "mgr_inv env (if e = Ev_conn_destroy c then {c} else {}) (emit (Fired e) w)"
    "clt_inv {} (emit (Fired e) w)" "phase_le w (emit (Fired e) w)"
proof -
  obtain m where m: "conns w c = Some m"
    using mgr_inv_parts(4) [OF ok(1)] e en by (auto simp: links_ok_def)
  note M = mgr_inv_connD [OF ok(1) m]
  have upd: "conns (emit (Fired e) w) = (conns w)(c \<mapsto> m)" using m by auto
  have "limit_ok (cfg (mgr w)) m (ev_pending (calls (emit (Fired e) w)) (Ev_http_req c))"
    using M(8) limit_mono(2) [OF M(8)] e by auto
  then have "mgr_inv env (if e = Ev_conn_destroy c then {c} else {}) (emit (Fired e) w)"
    by (intro mgr_inv_conn [OF ok(1) m upd, where es = "[Fired e]"]) (use e M(7) in auto)
  moreover have "clt_inv {} (emit (Fired e) w)"
    by (rule clt_inv_quiet [OF quiet_event ok(2)]) (use en in auto)
  moreover have "phase_le w (emit (Fired e) w)"
    by (rule phase_le_conn [OF m upd, where es = "[Fired e]"]) (use e in auto)
  ultimately show thesis using m that by blast
qed

lemma fire_conn_ok:
  assumes ok: "mgr_inv env {} w" "clt_inv {} w"
    and e: "e \<in> {Ev_http_req c, Ev_conn_destroy c, Ev_timeout r}"
    and en: "ev_live (calls w) e" "ev_pending (calls w) e"
  shows "\<exists>w'. deliver env (Fire e) w = Some w' \<and> mgr_inv env {} w' \<and> clt_inv {} w' \<and> phase_le w w'
    \<and> (e = Ev_conn_destroy c \<longrightarrow> conns w' c = None)"
proof -
  consider "e = Ev_http_req c" | "e = Ev_conn_destroy c" | "e = Ev_timeout r" using e by blast
  then show ?thesis
  proof cases
    case 1
    obtain m where m: "conns w c = Some m" "mgr_inv env {} (emit (Fired e) w)"
      "clt_inv {} (emit (Fired e) w)" "phase_le w (emit (Fired e) w)"
      by (rule fired_conn_ok [OF ok _ en, of c]) (use 1 in auto)
    have "limit_ok (cfg (mgr w)) m True" using mgr_inv_connD(8) [OF ok(1) m(1)] 1 en by simp
    then have "\<exists>w'. clt_mgr_conn_http_req_event env c (emit (Fired e) w) = Some w' \<and> mgr_inv env {} w'
        \<and> clt_inv {} w' \<and> phase_le (emit (Fired e) w) w'"
      by (intro http_req_event_ok [OF m(2,3)]) (use m 1 in auto)
    then show ?thesis using 1 phase_le_trans [OF m(4)] by (auto simp: fire_def)
  next
    case 2
    obtain m where m: "conns w c = Some m" "mgr_inv env {c} (emit (Fired e) w)"
      "clt_inv {} (emit (Fired e) w)" "phase_le w (emit (Fired e) w)"
      by (rule fired_conn_ok [OF ok _ en, of c]) (use 2 in auto)
    then show ?thesis using 2 destroy_now_ok [OF m(2,3), of m] phase_le_trans [OF m(4)]
      by (auto simp: fire_def clt_mgr_conn_destroy_event_def)
  next
    case 3
    obtain x where x: "creqs w r = Some x" using clt_inv_parts(7) [OF ok(2)] en 3 by auto
    have "owner_same w (emit (Fired e) w)" using 3 by auto
    then have f: "mgr_inv env {} (emit (Fired e) w)" "phase_le w (emit (Fired e) w)"
      using mgr_inv_frame [OF ok(1)] phase_le_frame by blast+
    have "clt_inv {} (emit (Fired e) w)"
      by (rule clt_inv_quiet [OF quiet_event ok(2)]) (use en in auto)
    then show ?thesis
      using 3 x f nc.timeout_ok [of env "{}" "emit (Fired e) w" w r x] by (auto simp: fire_def)
  qed
qed

lemma hook_input_ok:
  assumes ok: "mgr_inv env {} w" "clt_inv {} w" and en: "enabled (calls w) i"
    and i: "\<And>e. i \<noteq> Fire e"
  shows "\<exists>w'. deliver env i w = Some w' \<and> mgr_inv env {} w' \<and> clt_inv {} w' \<and> phase_le w w'"
proof -
  have J: "mgr_inv env {} w \<and> phase_le w w" using ok by simp
  have own: "\<exists>r x k. req_hook (calls w) q h = Some r \<and> creqs w r = Some x \<and> r_req x = Some q
      \<and> r_con x = Some k" if "req_live (calls w) q" "req_hook (calls w) q h \<noteq> None" for q h
    using that(2) hook_owner [OF ok(2) that(1), of h] by blast
  show ?thesis
  proof (cases i)
    case (Fire e)
    then show ?thesis using i by blast
  next
    case (Error_hook q tmo)
    then obtain r x where "req_hook (calls w) q on_error = Some r" "creqs w r = Some x"
      using own [of q on_error] en by auto
    then show ?thesis using Error_hook nc.error_ok [OF J ok(2)] by fastforce
  next
    case (Request_fini_hook q)
    then obtain r x k where "req_hook (calls w) q on_request_fini = Some r" "creqs w r = Some x"
      "r_req x = Some q" "r_con x = Some k"
      using own [of q on_request_fini] en by auto
    then show ?thesis using Request_fini_hook nc.fini_ok [OF J ok(2)] by fastforce
  next
    case (New_chunk_hook q n)
    then obtain r x where "req_hook (calls w) q on_new_chunk = Some r" "creqs w r = Some x"
      "r_req x = Some q"
      using own [of q on_new_chunk] en by auto
    then show ?thesis using New_chunk_hook nc.progress_hooks_ok(1) [OF J ok(2)] by fastforce
  next
    case (Chunk_done_hook q n)
    then obtain r x where "req_hook (calls w) q on_chunk_complete = Some r" "creqs w r = Some x"
      "r_req x = Some q"
      using own [of q on_chunk_complete] en by auto
    then show ?thesis using Chunk_done_hook nc.progress_hooks_ok(2) [OF J ok(2)] by fastforce
  next
    case (Chunks_done_hook q)
    then obtain r x where "req_hook (calls w) q on_chunks_complete = Some r" "creqs w r = Some x"
      "r_req x = Some q"
      using own [of q on_chunks_complete] en by auto
    then show ?thesis using Chunks_done_hook nc.progress_hooks_ok(3) [OF J ok(2)] by fastforce
  next
    case (Headers_start_hook q)
    then obtain r x where "req_hook (calls w) q on_headers_start = Some r" "creqs w r = Some x"
      "r_req x = Some q"
      using own [of q on_headers_start] en by auto
    then show ?thesis using Headers_start_hook nc.progress_hooks_ok(4) [OF J ok(2)] by fastforce
  next
    case (Conn_fini_hook k)
    then obtain r where r: "con_hook (calls w) k = Some r" "con_live (calls w) k" using en by auto
    then obtain x where "creqs w r = Some x" "r_con x = Some k"
      using con_hook_owner [OF ok(2)] by blast
    then show ?thesis using Conn_fini_hook r nc.lib_conn_fini_ok [OF J ok(2)] by fastforce
  next
    case (Request_done q status)
    then obtain r where r: "req_arg (calls w) q = Some r" "req_live (calls w) q" using en by auto
    then obtain x k where "creqs w r = Some x" "r_req x = Some q" "r_con x = Some k"
      using hook_owner [OF ok(2)] by blast
    then show ?thesis using Request_done r nc.req_cb_ok [OF J ok(2)] by fastforce
  qed
qed

lemma fired_timer_ok:
  assumes ok: "worker_ok env g w" and e: "mgr_ev e" and p: "ev_pending (calls w) e"
  shows "mgr_inv env {} (emit (Fired e) w)" "clt_inv {} (emit (Fired e) w)"
  using emit_call_ok [OF worker_okD(1,2) [OF ok], of "Fired e"] e p by auto

lemma phase_timers:
  assumes "phase_core w"
  shows "ev_pending (calls w) T_running \<Longrightarrow> mgr_state (mgr w) = CLT_MGR_STATE_RUNNING"
    "ev_pending (calls w) T_wait \<Longrightarrow> mgr_state (mgr w) = CLT_MGR_STATE_WAITING"
    "ev_pending (calls w) T_cleanup \<Longrightarrow> mgr_state (mgr w) = CLT_MGR_STATE_CLEANUP"
  using assms by (auto simp: phase_core_def Let_def split: clt_mgr_state.splits)

lemma stat_timer_ok:
  assumes ok: "worker_ok env g w" and p: "ev_pending (calls w) T_stat"
  shows "\<exists>w'. deliver env (Fire T_stat) w = Some w' \<and> worker_ok env g w'
    \<and> mgr w' = mgr w \<and> prev_stats w' = stats (mgr w)"
proof -
  note O = worker_okD [OF ok]
  note F = fired_timer_ok [OF ok _ p, simplified]
  let ?w1 = "clt_mgr_stats_notify (stats (mgr w)) (emit (Fired T_stat) w)"
  let ?w2 = "emit (Event_add T_stat (Some (0, 250000))) ?w1"
  have sel: "mgr ?w1 = mgr w" "conns ?w1 = conns w" "creqs ?w1 = creqs w"
    "calls ?w1 = Fired T_stat # calls w" "next_addr ?w1 = next_addr w"
    "prev_stats ?w1 = stats (mgr w)"
    by (simp_all add: clt_mgr_stats_notify_def Let_def mgr_stats_copy_def)
  have s1: "mgr_inv env {} ?w1" "clt_inv {} ?w1"
  proof -
    show "mgr_inv env {} ?w1" by (rule mgr_inv_unseen [OF F(1)])
      (use mgr_inv_parts(2) [OF O(1)] in \<open>simp_all add: sel\<close>)
    show "clt_inv {} ?w1" by (rule clt_inv_proj [OF F(2)]) (simp_all add: sel)
  qed
  have s2: "mgr_inv env {} ?w2" "clt_inv {} ?w2" by (rule emit_call_ok [OF s1]; simp)+
  have ph: "phase_core ?w1" "phase_core ?w2"
    using O(3) by (simp_all add: phase_core_def Let_def sel split: clt_mgr_state.splits)
  show ?thesis
  proof (cases "mgr_state (mgr w) = CLT_MGR_STATE_COMPLETED")
    case True
    then have "deliver env (Fire T_stat) w = Some ?w1"
      by (simp add: fire_def clt_mgr_stat_timer_def sel Let_def)
    moreover have "ticking ?w1" using O(4) True by (simp add: ticking_def sel)
    ultimately show ?thesis using s1 ph O(5) by (simp add: worker_ok_def sel)
  next
    case False
    then have "deliver env (Fire T_stat) w = Some ?w2"
      using timer_handles(2) [OF O(1)] by (simp add: fire_def clt_mgr_stat_timer_def sel Let_def)
    moreover have "ticking ?w2" using O(4) False by (simp add: ticking_def sel)
    ultimately show ?thesis using s2 ph O(5) by (simp add: worker_ok_def sel)
  qed
qed

lemma fire_timer_ok:
  assumes ok: "worker_ok env g w" and e: "mgr_ev e" "ev_pending (calls w) e"
  shows "\<exists>w'. deliver env (Fire e) w = Some w' \<and> worker_ok env g w'
    \<and> advances (mgr_state (mgr w)) (mgr_state (mgr w'))"
proof -
  note O = worker_okD [OF ok]
  note F = fired_timer_ok [OF ok e]
  have T: "ev_pending (calls w) T_timer" "ev_pending (calls w) T_stat"
    if "mgr_state (mgr w) \<noteq> CLT_MGR_STATE_COMPLETED" using O(4) that by (simp_all add: ticking_def)
  consider "e = T_timer" | "e = T_stat" | "e = T_running" | "e = T_wait" | "e = T_cleanup"
    using e(1) by (auto simp: mgr_ev_def)
  then show ?thesis
  proof cases
    case 1
    have st: "mgr_state (mgr w) \<noteq> CLT_MGR_STATE_COMPLETED" using O(4) e 1 by (simp add: ticking_def)
    have "phase_core (emit (Fired e) w)"
      using O(3) 1 by (simp add: phase_core_def Let_def split: clt_mgr_state.splits)
    then obtain w' where w': "clt_mgr_timer env (emit (Fired e) w) = Some w'" "mgr_inv env {} w'"
      "clt_inv {} w'" "phase_core w'"
      "ev_pending (calls w') T_timer = (mgr_state (mgr w') \<noteq> CLT_MGR_STATE_COMPLETED)"
      "ev_pending (calls w') T_stat = ev_pending (calls (emit (Fired e) w)) T_stat"
      "same_cfg (emit (Fired e) w) w'"
      "advances (mgr_state (mgr (emit (Fired e) w))) (mgr_state (mgr w'))"
      using clt_mgr_timer_ok [OF F] st by auto
    have "worker_ok env g w'"
      by (rule worker_ok_timer [OF ok w'(2-5)])
        (use w' T st 1 in \<open>auto simp: same_cfg_def\<close>)
    then show ?thesis using w'(1,8) 1 by (simp add: fire_def)
  next
    case 2
    then show ?thesis using stat_timer_ok [OF ok] e by (auto simp: advances_def)
  next
    case 3
    have st: "mgr_state (mgr w) = CLT_MGR_STATE_RUNNING" using phase_timers(1) [OF O(3)] e 3 by simp
    have "\<not> ev_pending (calls (emit (Fired e) w)) T_cleanup"
      using O(3) 3 st by (simp add: phase_core_def Let_def)
    then obtain w' where w': "clt_mgr_running_timer (emit (Fired e) w) = Some w'" "mgr_inv env {} w'"
      "clt_inv {} w'" "phase_core w'" "mgr_state (mgr w') = CLT_MGR_STATE_WAITING"
      "ev_pending (calls w') T_timer = ev_pending (calls (emit (Fired e) w)) T_timer"
      "ev_pending (calls w') T_stat = ev_pending (calls (emit (Fired e) w)) T_stat"
      "same_cfg (emit (Fired e) w) w'"
      using running_timer_ok [OF F] by auto
    have "worker_ok env g w'"
      by (rule worker_ok_timer [OF ok w'(2-4)])
        (use w' T st 3 in \<open>auto simp: same_cfg_def\<close>)
    then show ?thesis using w'(1,5) 3 st by (simp add: fire_def advances_def state_step.simps)
  next
    case 4
    have st: "mgr_state (mgr w) = CLT_MGR_STATE_WAITING" using phase_timers(2) [OF O(3)] e 4 by simp
    have "\<not> ev_pending (calls w) T_running" using O(3) st by (simp add: phase_core_def Let_def)
    then obtain w' where w': "clt_mgr_waiting_timer (emit (Fired e) w) = Some w'" "mgr_inv env {} w'"
      "clt_inv {} w'" "phase_core w'" "mgr_state (mgr w') = CLT_MGR_STATE_CLEANUP"
      "ev_pending (calls w') T_timer = ev_pending (calls (emit (Fired e) w)) T_timer"
      "ev_pending (calls w') T_stat = ev_pending (calls (emit (Fired e) w)) T_stat"
      "same_cfg (emit (Fired e) w) w'"
      using waiting_timer_ok [OF F] st 4 by auto
    have "worker_ok env g w'"
      by (rule worker_ok_timer [OF ok w'(2-4)])
        (use w' T st 4 in \<open>auto simp: same_cfg_def\<close>)
    then show ?thesis using w'(1,5) 4 st by (simp add: fire_def advances_def state_step.simps)
  next
    case 5
    have st: "mgr_state (mgr w) = CLT_MGR_STATE_CLEANUP" using phase_timers(3) [OF O(3)] e 5 by simp
    have "\<not> ev_pending (calls w) T_running" "\<not> ev_pending (calls w) T_wait"
      using O(3) st by (simp_all add: phase_core_def Let_def)
    then obtain w' where w': "clt_mgr_cleanup_timer (emit (Fired e) w) = Some w'" "mgr_inv env {} w'"
      "clt_inv {} w'" "phase_core w'" "mgr_state (mgr w') = CLT_MGR_STATE_CLEANUP_WAITING"
      "ev_pending (calls w') T_timer = ev_pending (calls (emit (Fired e) w)) T_timer"
      "ev_pending (calls w') T_stat = ev_pending (calls (emit (Fired e) w)) T_stat"
      "same_cfg (emit (Fired e) w) w'"
      using cleanup_timer_ok [OF F] st 5 by auto
    have "worker_ok env g w'"
      by (rule worker_ok_timer [OF ok w'(2-4)])
        (use w' T st 5 in \<open>auto simp: same_cfg_def\<close>)
    then show ?thesis using w'(1,5) 5 st by (simp add: fire_def advances_def state_step.simps)
  qed
qed

lemma deliver_ok:
  assumes ok: "worker_ok env g w" and en: "enabled (calls w) i"
  shows "\<exists>w'. deliver env i w = Some w' \<and> worker_ok env g w'
    \<and> advances (mgr_state (mgr w)) (mgr_state (mgr w'))"
proof (cases "\<exists>e. i = Fire e \<and> mgr_ev e")
  case True
  then show ?thesis using fire_timer_ok [OF ok] en by auto
next
  case False
  note O = worker_okD [OF ok]
  have st: "mgr_state (mgr w) \<noteq> CLT_MGR_STATE_COMPLETED"
    using completed_enabled [OF ok _ en] False by auto
  have "\<exists>w'. deliver env i w = Some w' \<and> mgr_inv env {} w' \<and> clt_inv {} w' \<and> phase_le w w'"
  proof (cases "\<exists>e. i = Fire e")
    case True
    then obtain e where e: "i = Fire e" "\<not> mgr_ev e" using False by blast
    then obtain c r where "e \<in> {Ev_http_req c, Ev_conn_destroy c, Ev_timeout r}"
      by (cases e) auto
    then show ?thesis using fire_conn_ok [OF O(1,2)] e en by (meson enabled.simps(1))
  next
    case False
    then show ?thesis using hook_input_ok [OF O(1,2) en] by blast
  qed
  then show ?thesis using worker_ok_le [OF ok st] by blast
qed

lemma worker_start_ok:
  assumes ev: "event_new_ok env" and g: "cfg_ok g"
  shows "\<exists>w. worker_start env g = Some w \<and> worker_ok env g w
    \<and> mgr_state (mgr w) = CLT_MGR_STATE_RUNNING"
proof -
  let ?m = "\<lparr>mgr_state = CLT_MGR_STATE_RUNNING, mgr_conn_list = [], t_timerev = Some T_timer,
     t_stat_timerev = Some T_stat, t_running_timerev = Some T_running,
     t_wait_timerev = Some T_wait, t_cleanup_timerev = Some T_cleanup, cfg = g,
     request_rate_error = 0, request_count_cur = 0, request_count_target = 0,
     stats = mgr_stats_zero\<rparr>"
  let ?new = "[Event_new T_running, Event_new T_cleanup, Event_new T_wait, Event_new T_stat,
     Event_new T_timer]"
  let ?run = "if running_period_sec g < 0 then []
     else [Event_add T_running (Some (running_period_sec g, 0))]"
  let ?l = "Event_add T_stat (Some (1, 0)) # Event_add T_timer (Some (0, 10000)) # ?run @ ?new"
  let ?w = "\<lparr>creqs = Map.empty, calls = ?l, next_addr = 5, mgr = ?m, conns = Map.empty,
     prev_stats = mgr_stats_zero\<rparr>"
  have ret: "worker_start env g = Some ?w"
    using ev by (simp add: worker_start_def clt_mgr_setup_def event_new_eq Let_def worker_zero_def
      clt_mgr_zero_def clt_mgr_start_def clt_mgr_set_running_timer_def clt_mgr_state_change_def
      upd_mgr_def emit_def)
  have "counts_ok ?m" using g
    by (simp add: counts_ok_def mgr_stats_zero_def pacer_inv_def rate_ok_def)
  moreover have "timers_ok ?w" by (simp add: timers_ok_def)
  moreover have "links_ok ?w" by (simp add: links_ok_def owner_of_def)
  ultimately have "mgr_inv env {} ?w" using ev by (simp add: mgr_inv_def)
  moreover have "clt_inv {} ?w"
    by (rule clt_invI) (simp_all add: limbo_ok_def split: if_splits)
  moreover have "phase_core ?w" by (simp add: phase_core_def)
  moreover have "ticking ?w" by (simp add: ticking_def)
  ultimately show ?thesis using ret by (simp add: worker_ok_def)
qed

interpretation ws: event_system "event_new_ok env \<and> cfg_ok g" "\<lambda>w. worker_start env g = Some w"
  "\<lambda>i w. enabled (calls w) i" "deliver env" "worker_ok env g" for env g
proof unfold_locales
  show "event_new_ok env \<and> cfg_ok g \<Longrightarrow> worker_start env g = Some w \<Longrightarrow> worker_ok env g w" for w
    using worker_start_ok [of env g] by auto
  show "event_new_ok env \<and> cfg_ok g \<Longrightarrow> worker_ok env g w \<Longrightarrow> enabled (calls w) i \<Longrightarrow>
      \<exists>w'. deliver env i w = Some w' \<and> worker_ok env g w'" for w i
    using deliver_ok [of env g w i] by blast
qed

lemma reachable_reach: "reachable env g w = ws.reach env g w"
proof
  show "reachable env g w \<Longrightarrow> ws.reach env g w"
    by (induction rule: reachable.induct) (blast intro: ws.reach.intros)+
  show "ws.reach env g w \<Longrightarrow> reachable env g w"
    by (induction rule: ws.reach.induct) (blast intro: reachable.intros)+
qed

lemma deliver_all_run: "deliver_all env is w = ws.run env is w"
  by (induction "is" arbitrary: w) (simp_all cong: Option.bind_cong)

lemma reachable_ok: "event_new_ok env \<Longrightarrow> cfg_ok g \<Longrightarrow> reachable env g w \<Longrightarrow> worker_ok env g w"
  using ws.reach_ok [of env g w] by (simp add: reachable_reach)

end
