(* ===== verification/Worker_Runs.thy ===== *)
theory Worker_Runs
  imports Worker
begin

text \<open>
  Runs of a worker: sequences of inputs, when the event loop has nothing left
  to wait for, and that the work can always be brought to its end.
\<close>

section \<open>Runs\<close>

lemma deliver_all_reachable:
  "reachable env g w \<Longrightarrow> deliver_all env is w = Some w' \<Longrightarrow> reachable env g w'"
  unfolding reachable_reach deliver_all_run by (rule ws.run_reach)

lemma deliver_all_append:
  "deliver_all env (is @ js) w = do { w \<leftarrow> deliver_all env is w; deliver_all env js w }"
  unfolding deliver_all_run by (rule ws.run_append)

lemma idle_completed:
  assumes ok: "worker_ok env g w"
  shows "(\<forall>e. \<not> (ev_live (calls w) e \<and> ev_pending (calls w) e)) \<longleftrightarrow>
    mgr_state (mgr w) = CLT_MGR_STATE_COMPLETED \<and> \<not> ev_pending (calls w) T_stat"
proof
  note O = worker_okD [OF ok]
  assume n: "\<forall>e. \<not> (ev_live (calls w) e \<and> ev_pending (calls w) e)"
  then have "\<not> ev_pending (calls w) T_timer" "\<not> ev_pending (calls w) T_stat"
    using mgr_ev_live [OF O(1)] by auto
  then show "mgr_state (mgr w) = CLT_MGR_STATE_COMPLETED \<and> \<not> ev_pending (calls w) T_stat"
    using O(4) by (simp add: ticking_def)
next
  assume c: "mgr_state (mgr w) = CLT_MGR_STATE_COMPLETED \<and> \<not> ev_pending (calls w) T_stat"
  show "\<forall>e. \<not> (ev_live (calls w) e \<and> ev_pending (calls w) e)"
  proof (rule allI, rule notI)
    fix e assume "ev_live (calls w) e \<and> ev_pending (calls w) e"
    then have "enabled (calls w) (Fire e)" by simp
    then show False using completed_enabled [OF ok, of "Fire e"] c
      \<open>ev_live (calls w) e \<and> ev_pending (calls w) e\<close> by auto
  qed
qed

section \<open>Completion\<close>

lemma fire_timer_step:
  assumes ok: "worker_ok env g w" and e: "mgr_ev e" "ev_pending (calls w) e"
  obtains w' where "deliver_all env [Fire e] w = Some w'" "worker_ok env g w'"
    "advances (mgr_state (mgr w)) (mgr_state (mgr w'))"
  using fire_timer_ok [OF ok e] mgr_ev_live [OF worker_okD(1) [OF ok] e(1)] e(2) by auto

lemma waiting_timer_state:
  assumes ok: "worker_ok env g w" and st: "mgr_state (mgr w) = CLT_MGR_STATE_WAITING"
  shows "\<exists>w'. deliver_all env [Fire T_wait] w = Some w' \<and> worker_ok env g w'
    \<and> mgr_state (mgr w') = CLT_MGR_STATE_CLEANUP"
proof -
  note O = worker_okD [OF ok]
  have p: "ev_pending (calls w) T_wait" using O(3) st by (simp add: phase_core_def Let_def)
  obtain w' where w': "deliver_all env [Fire T_wait] w = Some w'" "worker_ok env g w'"
    using fire_timer_step [OF ok _ p] by auto
  moreover have "deliver env (Fire T_wait) w = Some w'" using w'(1) by (auto split: if_splits bind_splits)
  then have "mgr_state (mgr w') = CLT_MGR_STATE_CLEANUP"
    using st timer_handles(5) [OF O(1)]
    by (auto simp: fire_def clt_mgr_waiting_timer_def clt_mgr_cleanup_schedule_def)
  ultimately show ?thesis by blast
qed

lemma cleanup_timer_state:
  assumes ok: "worker_ok env g w" and st: "mgr_state (mgr w) = CLT_MGR_STATE_CLEANUP"
  shows "\<exists>w'. deliver_all env [Fire T_cleanup] w = Some w' \<and> worker_ok env g w'
    \<and> mgr_state (mgr w') = CLT_MGR_STATE_CLEANUP_WAITING"
proof -
  note O = worker_okD [OF ok]
  have p: "ev_pending (calls w) T_cleanup" using O(3) st by (simp add: phase_core_def Let_def)
  obtain w' where w': "deliver_all env [Fire T_cleanup] w = Some w'" "worker_ok env g w'"
    using fire_timer_step [OF ok _ p] by auto
  moreover have "deliver env (Fire T_cleanup) w = Some w'"
    using w'(1) by (auto split: if_splits bind_splits)
  then have "mgr_state (mgr w') = CLT_MGR_STATE_CLEANUP_WAITING"
    using st by (auto simp: fire_def clt_mgr_cleanup_timer_def bind_eq_Some_iff)
  ultimately show ?thesis by blast
qed

lemma drain_conns:
  assumes "worker_ok env g w" "mgr_state (mgr w) = CLT_MGR_STATE_CLEANUP_WAITING"
  shows "\<exists>is w'. deliver_all env is w = Some w' \<and> worker_ok env g w'
    \<and> length is \<le> length (mgr_conn_list (mgr w))
    \<and> mgr_state (mgr w') = CLT_MGR_STATE_CLEANUP_WAITING \<and> mgr_conn_list (mgr w') = []"
  using assms
proof (induction "length (mgr_conn_list (mgr w))" arbitrary: w rule: less_induct)
  case less
  note O = worker_okD [OF less(2)]
  have L: "set (mgr_conn_list (mgr w)) = dom (conns w)" "distinct (mgr_conn_list (mgr w))"
    using mgr_inv_parts(2,4) [OF O(1)] by (simp_all add: links_ok_def counts_ok_def)
  show ?case
  proof (cases "mgr_conn_list (mgr w)")
    case Nil
    then show ?thesis using less by (intro exI [of _ "[]"]) auto
  next
    case (Cons c cs)
    then obtain m where m: "conns w c = Some m" using L(1) by fastforce
    have "is_dead m \<noteq> 0" using O(3) less(3) m by (simp add: phase_core_def Let_def)
    then have p: "ev_pending (calls w) (Ev_conn_destroy c)" "ev_live (calls w) (Ev_conn_destroy c)"
      using mgr_inv_connD(4,7) [OF O(1) m] by auto
    obtain w1 where w1: "deliver env (Fire (Ev_conn_destroy c)) w = Some w1"
      "mgr_inv env {} w1" "clt_inv {} w1" "phase_le w w1" "conns w1 c = None"
      using fire_conn_ok [OF O(1,2) _ p(2,1), of c] by auto
    have ok1: "worker_ok env g w1" and st1: "mgr_state (mgr w1) = CLT_MGR_STATE_CLEANUP_WAITING"
      using worker_ok_le [OF less(2) _ w1(2-4)] less(3) w1(4) by (auto simp: phase_le_def)
    have L1: "set (mgr_conn_list (mgr w1)) = dom (conns w1)" "distinct (mgr_conn_list (mgr w1))"
      using mgr_inv_parts(2,4) [OF w1(2)] by (simp_all add: links_ok_def counts_ok_def)
    have "dom (conns w1) \<subseteq> dom (conns w) - {c}"
      using w1(4,5) less(3) by (force simp: phase_le_def)
    moreover have "finite (dom (conns w))" "c \<in> dom (conns w)" using L(1) m by (metis List.finite_set, auto)
    ultimately have lt: "length (mgr_conn_list (mgr w1)) < length (mgr_conn_list (mgr w))"
      using L L1 by (metis card_Diff1_less card_mono distinct_card finite_Diff le_less_trans)
    obtain "is" w' where w': "deliver_all env is w1 = Some w'" "worker_ok env g w'"
      "length is \<le> length (mgr_conn_list (mgr w1))"
      "mgr_state (mgr w') = CLT_MGR_STATE_CLEANUP_WAITING" "mgr_conn_list (mgr w') = []"
      using less(1) [OF lt ok1 st1] by blast
    have "deliver_all env (Fire (Ev_conn_destroy c) # is) w = Some w'"
      using p w1(1) w'(1) by simp
    then show ?thesis using w'(2-5) lt
      by (intro exI [of _ "Fire (Ev_conn_destroy c) # is"] exI [of _ w']) simp
  qed
qed

lemma complete_cleanup_waiting:
  assumes ok: "worker_ok env g w" and st: "mgr_state (mgr w) = CLT_MGR_STATE_CLEANUP_WAITING"
  shows "\<exists>is w'. deliver_all env is w = Some w' \<and> worker_ok env g w'
    \<and> length is \<le> length (mgr_conn_list (mgr w)) + 2
    \<and> mgr_state (mgr w') = CLT_MGR_STATE_COMPLETED \<and> \<not> ev_pending (calls w') T_stat"
proof -
  obtain "is" w1 where w1: "deliver_all env is w = Some w1" "worker_ok env g w1"
    "length is \<le> length (mgr_conn_list (mgr w))"
    "mgr_state (mgr w1) = CLT_MGR_STATE_CLEANUP_WAITING" "mgr_conn_list (mgr w1) = []"
    using drain_conns [OF ok st] by blast
  note O = worker_okD [OF w1(2)]
  have n: "nconn (stats (mgr w1)) = 0"
    using mgr_inv_parts(2) [OF O(1)] w1(5) by (simp add: counts_ok_def)
  have p: "ev_pending (calls w1) T_timer" using O(4) w1(4) by (simp add: ticking_def)
  obtain w2 where w2: "deliver_all env [Fire T_timer] w1 = Some w2" "worker_ok env g w2"
    using fire_timer_step [OF w1(2) _ p] by auto
  have "deliver env (Fire T_timer) w1 = Some w2" using w2(1) by (auto split: if_splits bind_splits)
  then have st2: "mgr_state (mgr w2) = CLT_MGR_STATE_COMPLETED"
    using w1(4) n timer_handles(1) [OF O(1)]
    by (auto simp: fire_def clt_mgr_timer_def clt_mgr_timer_state_cleanup_waiting_def)
  show ?thesis
  proof (cases "ev_pending (calls w2) T_stat")
    case True
    obtain w3 where w3: "deliver env (Fire T_stat) w2 = Some w3" "worker_ok env g w3" "mgr w3 = mgr w2"
      using stat_timer_ok [OF w2(2) True] by blast
    have "\<not> ev_pending (calls w3) T_stat"
      using w3(1) st2 by (auto simp: fire_def clt_mgr_stat_timer_def clt_mgr_stats_notify_def Let_def)
    moreover have "deliver_all env (is @ [Fire T_timer, Fire T_stat]) w = Some w3"
      using w1(1) w2(1) w3(1) True mgr_ev_live [OF worker_okD(1) [OF w2(2)], of T_stat]
      by (auto simp: deliver_all_append split: if_splits bind_splits)
    ultimately show ?thesis using w1(3) w3(2,3) st2
      by (intro exI [of _ "is @ [Fire T_timer, Fire T_stat]"] exI [of _ w3]) simp
  next
    case False
    have "deliver_all env (is @ [Fire T_timer]) w = Some w2"
      using w1(1) w2(1) by (simp add: deliver_all_append)
    then show ?thesis using w1(3) w2(2) st2 False
      by (intro exI [of _ "is @ [Fire T_timer]"] exI [of _ w2]) simp
  qed
qed

lemma prepend_input:
  assumes "deliver_all env [i] w = Some w1"
    and "\<exists>is w'. deliver_all env is w1 = Some w' \<and> length is \<le> n \<and> P w'"
  shows "\<exists>is w'. deliver_all env is w = Some w' \<and> length is \<le> Suc n \<and> P w'"
proof -
  obtain "is" w' where "deliver_all env is w1 = Some w'" "length is \<le> n" "P w'"
    using assms(2) by blast
  moreover from this have "deliver_all env (i # is) w = Some w'"
    using assms(1) by (auto split: if_splits bind_splits)
  ultimately show ?thesis by (metis Suc_le_mono length_Cons)
qed

lemma destroy_all_mgr: "destroy_all cs w = Some w' \<Longrightarrow> mgr w' = mgr w"
proof (induction cs arbitrary: w)
  case (Cons c cs)
  then obtain w1 where "clt_mgr_conn_destroy c w = Some w1" "mgr w' = mgr w1"
    by (auto simp: bind_eq_Some_iff)
  then show ?case
    by (auto simp: clt_mgr_conn_destroy_def Let_def bind_eq_Some_iff event_add_def event_active_def)
qed simp

definition done_within :: "env \<Rightarrow> nat \<Rightarrow> world \<Rightarrow> bool" where
  \<comment> \<open>some sequence of at most \<open>n\<close> enabled inputs leads to the end of the event loop\<close>
  "done_within env n w \<longleftrightarrow> (\<exists>is w'. deliver_all env is w = Some w' \<and> length is \<le> n
     \<and> mgr_state (mgr w') = CLT_MGR_STATE_COMPLETED \<and> \<not> ev_pending (calls w') T_stat)"

lemma done_within_mono: "done_within env n w \<Longrightarrow> n \<le> m \<Longrightarrow> done_within env m w"
  unfolding done_within_def by (meson order_trans)

lemma done_within_step:
  assumes "deliver_all env [i] w = Some w1" "done_within env n w1" "Suc n \<le> m"
  shows "done_within env m w"
proof (rule done_within_mono [OF _ assms(3)])
  show "done_within env (Suc n) w"
    using assms(2) unfolding done_within_def by (rule prepend_input [OF assms(1)])
qed

lemma done_cleanup:
  assumes ok: "worker_ok env g w" and st: "mgr_state (mgr w) = CLT_MGR_STATE_CLEANUP"
  shows "done_within env (length (mgr_conn_list (mgr w)) + 3) w"
proof -
  obtain w1 where w1: "deliver_all env [Fire T_cleanup] w = Some w1" "worker_ok env g w1"
    "mgr_state (mgr w1) = CLT_MGR_STATE_CLEANUP_WAITING"
    using cleanup_timer_state [OF ok st] by blast
  then have "mgr_conn_list (mgr w1) = mgr_conn_list (mgr w)"
    using st destroy_all_mgr
    by (fastforce simp: fire_def clt_mgr_cleanup_timer_def bind_eq_Some_iff split: if_splits)
  then have "done_within env (length (mgr_conn_list (mgr w)) + 2) w1"
    using complete_cleanup_waiting [OF w1(2,3)] unfolding done_within_def by auto
  then show ?thesis by (rule done_within_step [OF w1(1)]) simp
qed

lemma done_waiting:
  assumes ok: "worker_ok env g w" and st: "mgr_state (mgr w) = CLT_MGR_STATE_WAITING"
  shows "done_within env (length (mgr_conn_list (mgr w)) + 4) w"
proof -
  obtain w1 where w1: "deliver_all env [Fire T_wait] w = Some w1" "worker_ok env g w1"
    "mgr_state (mgr w1) = CLT_MGR_STATE_CLEANUP"
    using waiting_timer_state [OF ok st] by blast
  then have "mgr_conn_list (mgr w1) = mgr_conn_list (mgr w)"
    using st timer_handles(5) [OF worker_okD(1) [OF ok]]
    by (auto simp: fire_def clt_mgr_waiting_timer_def clt_mgr_cleanup_schedule_def
        split: if_splits)
  then have "done_within env (length (mgr_conn_list (mgr w)) + 3) w1"
    using done_cleanup [OF w1(2,3)] by simp
  then show ?thesis by (rule done_within_step [OF w1(1)]) simp
qed

lemma done_running:
  assumes ok: "worker_ok env g w" and st: "mgr_state (mgr w) = CLT_MGR_STATE_RUNNING"
    and r: "0 \<le> running_period_sec g"
  shows "done_within env (length (mgr_conn_list (mgr w)) + 5) w"
proof -
  note O = worker_okD [OF ok]
  note T = timer_handles [OF O(1)]
  have "running_period_sec ((cfg (mgr w))\<lparr>ipv4_dst := ipv4_dst g\<rparr>) = running_period_sec g"
    using O(5) by simp
  then have p: "ev_pending (calls w) T_running"
    using O(3) st r by (simp add: phase_core_def Let_def)
  obtain w1 where w1: "deliver_all env [Fire T_running] w = Some w1" "worker_ok env g w1"
    using fire_timer_step [OF ok _ p] by auto
  have "mgr w1 = (mgr w)\<lparr>mgr_state := CLT_MGR_STATE_WAITING\<rparr>"
    using w1(1) T by (auto simp: fire_def clt_mgr_running_timer_def clt_mgr_state_set_waiting_def
      clt_mgr_waiting_schedule_def Let_def split: if_splits)
  then have "done_within env (length (mgr_conn_list (mgr w)) + 4) w1"
    using done_waiting [OF w1(2)] by simp
  then show ?thesis by (rule done_within_step [OF w1(1)]) simp
qed

lemma done_completed:
  assumes ok: "worker_ok env g w" and st: "mgr_state (mgr w) = CLT_MGR_STATE_COMPLETED"
  shows "done_within env 1 w"
proof (cases "ev_pending (calls w) T_stat")
  case True
  obtain w1 where w1: "deliver env (Fire T_stat) w = Some w1" "mgr w1 = mgr w"
    using stat_timer_ok [OF ok True] by blast
  moreover have "\<not> ev_pending (calls w1) T_stat"
    using w1(1) st by (auto simp: fire_def clt_mgr_stat_timer_def clt_mgr_stats_notify_def Let_def)
  moreover have "deliver_all env [Fire T_stat] w = Some w1"
    using w1(1) True mgr_ev_live [OF worker_okD(1) [OF ok]] by simp
  ultimately show ?thesis using st unfolding done_within_def
    by (intro exI [of _ "[Fire T_stat]"] exI [of _ w1]) simp
next
  case False
  then show ?thesis using st unfolding done_within_def by (intro exI [of _ "[]"] exI [of _ w]) simp
qed

lemma worker_completes:
  assumes ok: "worker_ok env g w"
    and r: "0 \<le> running_period_sec g \<or> mgr_state (mgr w) \<noteq> CLT_MGR_STATE_RUNNING"
  shows "done_within env (length (mgr_conn_list (mgr w)) + 5) w"
proof (cases "mgr_state (mgr w)")
  case CLT_MGR_STATE_RUNNING
  then show ?thesis using done_running [OF ok] r by simp
next
  case CLT_MGR_STATE_WAITING
  then show ?thesis using done_within_mono [OF done_waiting [OF ok]] by simp
next
  case CLT_MGR_STATE_CLEANUP
  then show ?thesis using done_within_mono [OF done_cleanup [OF ok]] by simp
next
  case CLT_MGR_STATE_CLEANUP_WAITING
  then have "done_within env (length (mgr_conn_list (mgr w)) + 2) w"
    using complete_cleanup_waiting [OF ok] unfolding done_within_def by blast
  then show ?thesis by (rule done_within_mono) simp
next
  case CLT_MGR_STATE_COMPLETED
  then show ?thesis using done_within_mono [OF done_completed [OF ok]] by simp
qed (use worker_okD(3) [OF ok] in \<open>simp_all add: phase_core_def\<close>)

end
