(* ===== verification/App.thy ===== *)
theory App
  imports Options Worker_Runs
begin

text \<open>
  \<open>clt/thr.h\<close>, \<open>clt/thr.c\<close> and the rest of \<open>clt/main.c\<close>: the client process.
  \<open>main\<close> parses the options, divides the configuration between the worker
  threads, starts them and a thread that reports statistics, and waits for all
  of them.

  The process is a set of threads that take turns. An action is a step of one
  thread: of \<open>main\<close>, of a worker (its start, one input of its event loop, its
  return) or of the reporting thread. Threads share only the published
  statistics \<open>prev_stats\<close>, which are read and written under a mutex, and
  \<open>stats_thread_run\<close>; one access to either is one step. \<open>aenv\<close> says which
  allocations and thread creations succeed.
\<close>

section \<open>Threads\<close>

datatype thr_pc = Thr_none | Thr_created | Thr_loop | Thr_ended

record clt_thr =
  t_tid :: int
  t_pc :: thr_pc
  t_world :: world
    \<comment> \<open>the manager \<open>t_m\<close> points to, its heap, and \<open>prev_stats\<close>\<close>

datatype appcall =
    Event_base_new int | Evhtp_new int | Mutex_init int
  | Mutex_destroy int | Evhtp_free int | Event_base_free int

datatype main_pc = M_create nat | M_join nat | M_wait | M_exit int

datatype stats_pc = St_none | St_check | St_sleep | St_collect nat mgr_stats | St_ended

record app =
  th :: "clt_thr list"
  a_cfg :: mgr_config
  stats_thread_run :: int
  a_prev_stats :: mgr_stats
  main_pc :: main_pc
  stats_pc :: stats_pc
  printed :: "(string \<times> mgr_stats) list"
    \<comment> \<open>the statistics lines, newest first\<close>
  a_calls :: "appcall list"

record aenv =
  ae_strdup :: "nat \<Rightarrow> bool"
  ae_copy :: "nat \<Rightarrow> nat \<Rightarrow> bool"
  ae_calloc_th :: bool
  ae_calloc_m :: "nat \<Rightarrow> bool"
  ae_create :: "nat \<Rightarrow> bool"
  ae_create_stats :: bool
  ae_env :: "nat \<Rightarrow> env"

definition clt_thr_zero :: clt_thr where
  "clt_thr_zero = \<lparr>t_tid = 0, t_pc = Thr_none, t_world = worker_zero mgr_config_zero\<rparr>"

definition clt_thr_setup ::
  "int \<Rightarrow> clt_thr \<Rightarrow> appcall list \<Rightarrow> int \<times> clt_thr \<times> appcall list" where
  "clt_thr_setup tid t l =
     (0, t\<lparr>t_tid := tid\<rparr>, Mutex_init tid # Evhtp_new tid # Event_base_new tid # l)"

definition clt_thr_free :: "clt_thr \<Rightarrow> appcall list \<Rightarrow> appcall list" where
  "clt_thr_free t l =
     Event_base_free (t_tid t) # Evhtp_free (t_tid t) # Mutex_destroy (t_tid t) # l"

definition upd_thr :: "nat \<Rightarrow> (clt_thr \<Rightarrow> clt_thr) \<Rightarrow> app \<Rightarrow> app" where
  "upd_thr i f a = a\<lparr>th := (th a)[i := f (th a ! i)]\<rparr>"

section \<open>Setting up\<close>

fun setup_threads :: "aenv \<Rightarrow> nat \<Rightarrow> nat \<Rightarrow> app \<Rightarrow> int + app" where
  \<comment> \<open>the first loop of \<open>main\<close>, at index \<open>i\<close> with \<open>k\<close> iterations left\<close>
  "setup_threads ae i 0 a = Inr a"
| "setup_threads ae i (Suc k) a =
     (case clt_thr_setup (int i) (th a ! i) (a_calls a) of
        (rc, t, l) \<Rightarrow>
          if rc \<noteq> 0 then Inl 127
          else if \<not> ae_calloc_m ae i then Inl 127
          else (case clt_mgr_setup (ae_env ae i) (t_world t) of
            (rc, w) \<Rightarrow> setup_threads ae (Suc i) k
              (a\<lparr>th := (th a)[i := t\<lparr>t_world := w\<rparr>], a_calls := l\<rparr>)))"

fun copy_configs :: "aenv \<Rightarrow> nat \<Rightarrow> nat \<Rightarrow> app \<Rightarrow> app option" where
  \<comment> \<open>the second loop\<close>
  "copy_configs ae i 0 a = Some a"
| "copy_configs ae i (Suc k) a =
     do { (rc, g) \<leftarrow> mgr_config_copy_thread (ae_copy ae i) (a_cfg a)
            (cfg (mgr (t_world (th a ! i)))) (num_threads (a_cfg a));
          copy_configs ae (Suc i) k
            (upd_thr i (\<lambda>t. t\<lparr>t_world := upd_mgr (\<lambda>m. m\<lparr>cfg := g\<rparr>) (t_world t)\<rparr>) a) }"

definition app_start :: "aenv \<Rightarrow> (opt \<times> string) list \<Rightarrow> (int + app) option" where
  \<comment> \<open>\<open>main\<close> up to the creation of the threads: an exit status, or the process\<close>
  "app_start ae opts =
     do { (rc, g) \<leftarrow> parse_opts (ae_strdup ae) opts (mgr_config_defaults mgr_config_zero);
          if rc \<noteq> 0 then Some (Inl 128)
          else if cfg_ipv4_array_nentries (ipv4_dst g) = 0 \<or> uri g = None \<or> port g = -1
          then Some (Inl 128)
          else if num_threads g < 0 \<or> \<not> ae_calloc_th ae then Some (Inl 127)
          else (let n = nat (num_threads g) in
            case setup_threads ae 0 n \<lparr>th = replicate n clt_thr_zero, a_cfg = g,
                   stats_thread_run = 0, a_prev_stats = mgr_stats_zero, main_pc = M_create 0,
                   stats_pc = St_none, printed = [], a_calls = []\<rparr> of
              Inl rc \<Rightarrow> Some (Inl rc)
            | Inr a \<Rightarrow> map_option Inr (copy_configs ae 0 n a)) }"

section \<open>Running\<close>

definition clt_mgr_stats_print :: "string \<Rightarrow> mgr_stats \<Rightarrow> app \<Rightarrow> app" where
  "clt_mgr_stats_print prefix st a = a\<lparr>printed := (prefix, st) # printed a\<rparr>"

definition main_step :: "aenv \<Rightarrow> app \<Rightarrow> app" where
  "main_step ae a = (case main_pc a of
      M_create i \<Rightarrow>
        (if i < length (th a) then
           (if ae_create ae i then upd_thr i (\<lambda>t. t\<lparr>t_pc := Thr_created\<rparr>) a\<lparr>main_pc := M_create (Suc i)\<rparr>
            else a\<lparr>main_pc := M_exit 127\<rparr>)
         else
           (if ae_create_stats ae then a\<lparr>stats_thread_run := 1, stats_pc := St_check, main_pc := M_join 0\<rparr>
            else a\<lparr>stats_thread_run := 1, main_pc := M_exit 127\<rparr>))
    | M_join i \<Rightarrow>
        (if i < length (th a) then a\<lparr>main_pc := M_join (Suc i)\<rparr>
         else a\<lparr>stats_thread_run := 0, main_pc := M_wait\<rparr>)
    | M_wait \<Rightarrow>
        (let a = clt_mgr_stats_print ''run_total'' (a_prev_stats a) a
         in a\<lparr>a_calls := fold clt_thr_free (th a) (a_calls a), main_pc := M_exit 0\<rparr>)
    | M_exit rc \<Rightarrow> a)"

definition thread_name :: "int \<Rightarrow> string" where
  \<comment> \<open>\<open>"thread (%d)"\<close> for a thread number, which is not negative\<close>
  "thread_name tid = ''thread ('' @ decimal (nat tid) @ '')''"

fun waits_on :: "log \<Rightarrow> ev list" where
  \<comment> \<open>the events that were ever added\<close>
  "waits_on [] = []"
| "waits_on (Event_add e tv # l) = e # waits_on l"
| "waits_on (Event_active e # l) = e # waits_on l"
| "waits_on (_ # l) = waits_on l"

definition loop_idle :: "log \<Rightarrow> bool" where
  \<comment> \<open>\<open>event_base_loop\<close> has nothing left to wait for\<close>
  "loop_idle l = list_all (\<lambda>e. \<not> (ev_live l e \<and> ev_pending l e)) (waits_on l)"

definition clt_mgr_thread_run :: "clt_thr \<Rightarrow> clt_thr option" where
  \<comment> \<open>up to the event loop\<close>
  "clt_mgr_thread_run t =
     do { w \<leftarrow> clt_mgr_start (t_world t); Some (t\<lparr>t_world := w, t_pc := Thr_loop\<rparr>) }"

definition clt_mgr_thread_end :: "nat \<Rightarrow> app \<Rightarrow> app" where
  \<comment> \<open>after the event loop\<close>
  "clt_mgr_thread_end i a =
     clt_mgr_stats_print (thread_name (t_tid (th a ! i))) (stats (mgr (t_world (th a ! i))))
       (upd_thr i (\<lambda>t. t\<lparr>t_pc := Thr_ended\<rparr>) a)"

definition app_stats_thread :: "app \<Rightarrow> app" where
  "app_stats_thread a = (case stats_pc a of
      St_check \<Rightarrow> a\<lparr>stats_pc := (if stats_thread_run a = 1 then St_sleep else St_ended)\<rparr>
    | St_sleep \<Rightarrow> a\<lparr>stats_pc := St_collect 0 mgr_stats_zero\<rparr>
    | St_collect i st \<Rightarrow>
        (if i < length (th a)
         then a\<lparr>stats_pc := St_collect (Suc i) (mgr_stats_add (prev_stats (t_world (th a ! i))) st)\<rparr>
         else
           (let sdiff = mgr_stats_diff (a_prev_stats a) st mgr_stats_zero;
                a = clt_mgr_stats_print ''interval_total'' st a;
                a = clt_mgr_stats_print ''interval_diff'' sdiff a
            in a\<lparr>a_prev_stats := mgr_stats_copy st (a_prev_stats a), stats_pc := St_check\<rparr>))
    | _ \<Rightarrow> a)"

datatype action = Main_next | Thr_begin nat | Thr_input nat input | Thr_return nat | Stats_next

definition exited :: "app \<Rightarrow> bool" where
  "exited a = (case main_pc a of M_exit rc \<Rightarrow> True | _ \<Rightarrow> False)"

fun app_can :: "action \<Rightarrow> app \<Rightarrow> bool" where
  "app_can Main_next a = (case main_pc a of
      M_create i \<Rightarrow> True
    | M_join i \<Rightarrow> i < length (th a) \<longrightarrow> t_pc (th a ! i) = Thr_ended
    | M_wait \<Rightarrow> stats_pc a = St_ended
    | M_exit rc \<Rightarrow> False)"
| "app_can (Thr_begin i) a = (\<not> exited a \<and> i < length (th a) \<and> t_pc (th a ! i) = Thr_created)"
| "app_can (Thr_input i x) a = (\<not> exited a \<and> i < length (th a) \<and> t_pc (th a ! i) = Thr_loop
     \<and> enabled (calls (t_world (th a ! i))) x)"
| "app_can (Thr_return i) a = (\<not> exited a \<and> i < length (th a) \<and> t_pc (th a ! i) = Thr_loop
     \<and> loop_idle (calls (t_world (th a ! i))))"
| "app_can Stats_next a = (\<not> exited a \<and> stats_pc a \<noteq> St_none \<and> stats_pc a \<noteq> St_ended)"

fun app_do :: "aenv \<Rightarrow> action \<Rightarrow> app \<Rightarrow> app option" where
  "app_do ae Main_next a = Some (main_step ae a)"
| "app_do ae (Thr_begin i) a =
     do { t \<leftarrow> clt_mgr_thread_run (th a ! i); Some (upd_thr i (\<lambda>_. t) a) }"
| "app_do ae (Thr_input i x) a =
     do { w \<leftarrow> deliver (ae_env ae i) x (t_world (th a ! i));
          Some (upd_thr i (\<lambda>t. t\<lparr>t_world := w\<rparr>) a) }"
| "app_do ae (Thr_return i) a = Some (clt_mgr_thread_end i a)"
| "app_do ae Stats_next a = Some (app_stats_thread a)"

primrec app_run :: "aenv \<Rightarrow> action list \<Rightarrow> app \<Rightarrow> app option" where
  "app_run ae [] a = Some a"
| "app_run ae (x # xs) a =
     (if app_can x a then do { a \<leftarrow> app_do ae x a; app_run ae xs a } else None)"

inductive app_reachable :: "aenv \<Rightarrow> (opt \<times> string) list \<Rightarrow> app \<Rightarrow> bool" for ae opts where
  start: "app_start ae opts = Some (Inr a) \<Longrightarrow> app_reachable ae opts a"
| step: "app_reachable ae opts a \<Longrightarrow> app_can x a \<Longrightarrow> app_do ae x a = Some a' \<Longrightarrow>
    app_reachable ae opts a'"

end
