(* ===== verification/App_Safety.thy ===== *)
theory App_Safety
  imports App
begin

text \<open>
  The invariant of the client process: what \<open>main\<close> has set up, that every worker
  that runs is in a reachable state of a worker with its share of the
  configuration, and how far the threads have come.
\<close>

section \<open>Setting up\<close>

definition aenv_ok :: "aenv \<Rightarrow> bool" where
  \<comment> \<open>the results the code does not check: \<open>strdup\<close> and \<open>event_new\<close>\<close>
  "aenv_ok ae \<longleftrightarrow> ae_strdup ae = (\<lambda>_. True) \<and> (\<forall>i. ae_copy ae i = (\<lambda>_. True))
     \<and> (\<forall>i. event_new_ok (ae_env ae i))"

definition thread_cfg :: "mgr_config \<Rightarrow> mgr_config" where
  \<comment> \<open>the configuration of each worker\<close>
  "thread_cfg g = snd (the (mgr_config_copy_thread (\<lambda>_. True) g mgr_config_zero (num_threads g)))"

definition run_cfg_ok :: "mgr_config \<Rightarrow> bool" where
  \<comment> \<open>what \<open>main\<close> knows about the configuration when it starts the threads\<close>
  "run_cfg_ok g \<longleftrightarrow> array_wf (ipv4_dst g) \<and> addrs (ipv4_dst g) \<noteq> [] \<and> uri g \<noteq> None \<and> ints_ok g
     \<and> port g \<noteq> -1 \<and> 0 \<le> num_threads g"

lemma thread_cfg_spec:
  assumes "run_cfg_ok g" "0 < num_threads g"
  shows "mgr_config_copy_thread (\<lambda>_. True) g mgr_config_zero (num_threads g) = Some (0, thread_cfg g)"
    and "cfg_ok (thread_cfg g)"
    and "target_nconn (thread_cfg g) = c_int (target_nconn g sdiv num_threads g)"
    and "target_total_nconn_count (thread_cfg g) = share (target_total_nconn_count g) (num_threads g)"
    and "running_period_sec (thread_cfg g) = running_period_sec g"
proof -
  obtain u where u: "uri g = Some u" using assms by (auto simp: run_cfg_ok_def)
  have "array_wf (ipv4_dst g)" using assms by (simp add: run_cfg_ok_def)
  then obtain arr where arr:
    "cfg_ipv4_array_dup (\<lambda>_. True) cfg_ipv4_array_init (ipv4_dst g) = Some arr"
    "array_wf arr" "addrs arr = addrs (ipv4_dst g)"
    using array_dup_spec [of "ipv4_dst g" cfg_ipv4_array_init] by (auto simp: cfg_ipv4_array_init_def)
  obtain g' where g': "mgr_config_copy_thread (\<lambda>_. True) g mgr_config_zero (num_threads g) = Some (0, g')"
    "ipv4_dst g' = arr" "uri g' = Some u" "target_nconn g' = c_int (target_nconn g sdiv num_threads g)"
    "target_request_count g' = target_request_count g"
    "target_total_nconn_count g' = share (target_total_nconn_count g) (num_threads g)"
    "running_period_sec g' = running_period_sec g"
    using assms(2) u arr(1) by (simp add: mgr_config_copy_thread_def mgr_config_zero_def Let_def)
  then show e: "mgr_config_copy_thread (\<lambda>_. True) g mgr_config_zero (num_threads g)
      = Some (0, thread_cfg g)"
    by (simp add: thread_cfg_def)
  with g' have t: "thread_cfg g = g'" by simp
  show "cfg_ok (thread_cfg g)"
    using g' arr assms by (auto simp: t cfg_ok_def run_cfg_ok_def ints_ok_def share_def)
  show "target_nconn (thread_cfg g) = c_int (target_nconn g sdiv num_threads g)"
    "target_total_nconn_count (thread_cfg g) = share (target_total_nconn_count g) (num_threads g)"
    "running_period_sec (thread_cfg g) = running_period_sec g"
    using g' by (simp_all add: t)
qed

definition thr_init :: "env \<Rightarrow> mgr_config \<Rightarrow> world" where
  \<comment> \<open>a worker before its thread starts\<close>
  "thr_init env g = upd_mgr (\<lambda>m. m\<lparr>cfg := g\<rparr>) (snd (clt_mgr_setup env (worker_zero mgr_config_zero)))"

lemma worker_start_init: "worker_start env g = clt_mgr_start (thr_init env g)"
  by (simp add: worker_start_def thr_init_def Let_def split: prod.splits)

lemma upd_thr_sel [simp]:
  "th (upd_thr i f a) = (th a)[i := f (th a ! i)]" "a_cfg (upd_thr i f a) = a_cfg a"
  "stats_thread_run (upd_thr i f a) = stats_thread_run a"
  "a_prev_stats (upd_thr i f a) = a_prev_stats a" "main_pc (upd_thr i f a) = main_pc a"
  "stats_pc (upd_thr i f a) = stats_pc a" "printed (upd_thr i f a) = printed a"
  "a_calls (upd_thr i f a) = a_calls a"
  by (simp_all add: upd_thr_def)

definition setup_calls :: "nat \<Rightarrow> appcall list" where
  "setup_calls i = [Mutex_init (int i), Evhtp_new (int i), Event_base_new (int i)]"

definition set_up :: "aenv \<Rightarrow> nat \<Rightarrow> clt_thr \<Rightarrow> clt_thr" where
  "set_up ae i t = t\<lparr>t_tid := int i, t_world := snd (clt_mgr_setup (ae_env ae i) (t_world t))\<rparr>"

lemma setup_threads_Suc:
  "setup_threads ae i (Suc k) a =
     (if ae_calloc_m ae i
      then setup_threads ae (Suc i) k
        (a\<lparr>th := (th a)[i := set_up ae i (th a ! i)], a_calls := setup_calls i @ a_calls a\<rparr>)
      else Inl 127)"
  by (simp add: clt_thr_setup_def set_up_def setup_calls_def split: prod.splits)

lemma setup_threads_fail:
  "i + k \<le> length (th a) \<Longrightarrow> i \<le> j \<Longrightarrow> j < i + k \<Longrightarrow> \<not> ae_calloc_m ae j \<Longrightarrow>
    setup_threads ae i k a = Inl 127"
proof (induction k arbitrary: i a)
  case (Suc k)
  then show ?case by (cases "i = j") (auto simp: setup_threads_Suc simp del: setup_threads.simps(2))
qed simp

lemma setup_threads_ok:
  assumes "i + k \<le> length (th a)" "\<And>j. i \<le> j \<Longrightarrow> j < i + k \<Longrightarrow> ae_calloc_m ae j"
  shows "\<exists>ts. setup_threads ae i k a = Inr (a\<lparr>th := ts,
             a_calls := concat (map setup_calls (rev [i..<i + k])) @ a_calls a\<rparr>)
        \<and> length ts = length (th a)
        \<and> (\<forall>j < length ts. ts ! j = (if i \<le> j \<and> j < i + k then set_up ae j (th a ! j) else th a ! j))"
  using assms
proof (induction k arbitrary: i a)
  case 0
  have n: "(i \<le> j \<and> j < i + 0) = False" for j by auto
  show ?case unfolding n by (rule exI [of _ "th a"]) simp
next
  case (Suc k)
  define a1 where "a1 = a\<lparr>th := (th a)[i := set_up ae i (th a ! i)], a_calls := setup_calls i @ a_calls a\<rparr>"
  have step: "setup_threads ae i (Suc k) a = setup_threads ae (Suc i) k a1"
    using Suc.prems(2) [of i] by (simp add: setup_threads_Suc a1_def del: setup_threads.simps(2))
  have "Suc i + k \<le> length (th a1)" "ae_calloc_m ae j" if "Suc i \<le> j" "j < Suc i + k" for j
    using Suc.prems that by (auto simp: a1_def)
  then obtain ts where ts: "setup_threads ae (Suc i) k a1 = Inr (a1\<lparr>th := ts,
        a_calls := concat (map setup_calls (rev [Suc i..<Suc i + k])) @ a_calls a1\<rparr>)"
      "length ts = length (th a1)"
      "\<forall>j < length ts. ts ! j = (if Suc i \<le> j \<and> j < Suc i + k then set_up ae j (th a1 ! j)
         else th a1 ! j)"
    using Suc.IH [of "Suc i" a1] Suc.prems(1) by (auto simp: a1_def)
  have "[i..<i + Suc k] = i # [Suc i..<Suc i + k]" by (simp add: upt_conv_Cons del: upt_Suc)
  then show ?case using ts Suc.prems(1) unfolding step
    by (intro exI [of _ ts]) (auto simp: a1_def nth_list_update simp del: upt_Suc)
qed

lemma copy_configs_spec:
  assumes "i + k \<le> length (th a)" "0 < k \<Longrightarrow> 0 < num_threads (a_cfg a)" "run_cfg_ok (a_cfg a)"
    "\<And>j. ae_copy ae j = (\<lambda>_. True)"
    "\<And>j. i \<le> j \<Longrightarrow> j < i + k \<Longrightarrow> cfg (mgr (t_world (th a ! j))) = mgr_config_zero"
  shows "\<exists>ts. copy_configs ae i k a = Some (a\<lparr>th := ts\<rparr>) \<and> length ts = length (th a)
    \<and> (\<forall>j < length ts. ts ! j = (if i \<le> j \<and> j < i + k
         then (th a ! j)\<lparr>t_world :=
           upd_mgr (\<lambda>m. m\<lparr>cfg := thread_cfg (a_cfg a)\<rparr>) (t_world (th a ! j))\<rparr>
         else th a ! j))"
  using assms
proof (induction k arbitrary: i a)
  case 0
  have n: "(i \<le> j \<and> j < i + 0) = False" for j by auto
  show ?case unfolding n by (rule exI [of _ "th a"]) simp
next
  case (Suc k)
  define a1 where "a1 = upd_thr i (\<lambda>t. t\<lparr>t_world :=
    upd_mgr (\<lambda>m. m\<lparr>cfg := thread_cfg (a_cfg a)\<rparr>) (t_world t)\<rparr>) a"
  have step: "copy_configs ae i (Suc k) a = copy_configs ae (Suc i) k a1"
  proof -
    have "cfg (mgr (t_world (th a ! i))) = mgr_config_zero" using Suc.prems(5) [of i] by simp
    moreover have "0 < num_threads (a_cfg a)" using Suc.prems(2) by simp
    ultimately show ?thesis
      using thread_cfg_spec(1) [OF Suc.prems(3)] by (simp add: a1_def Suc.prems(4))
  qed
  obtain ts where "copy_configs ae (Suc i) k a1 = Some (a1\<lparr>th := ts\<rparr>)" "length ts = length (th a1)"
    "\<forall>j < length ts. ts ! j = (if Suc i \<le> j \<and> j < Suc i + k
       then (th a1 ! j)\<lparr>t_world :=
         upd_mgr (\<lambda>m. m\<lparr>cfg := thread_cfg (a_cfg a1)\<rparr>) (t_world (th a1 ! j))\<rparr> else th a1 ! j)"
    using Suc.IH [of "Suc i" a1] Suc.prems by (auto simp: a1_def)
  then show ?case using Suc.prems(1) unfolding step
    by (intro exI [of _ ts]) (auto simp: a1_def nth_list_update upd_thr_def)
qed

section \<open>What \<open>main\<close> starts with\<close>

definition usable :: "(opt \<times> string) list \<Rightarrow> bool" where
  \<comment> \<open>a command line \<open>main\<close> goes on with\<close>
  "usable opts \<longleftrightarrow> list_all (\<lambda>(c, _). accepted c) opts \<and> length (given OPT_HOST_IP opts) \<le> 16
     \<and> given OPT_HOST_IP opts \<noteq> [] \<and> given OPT_URI opts \<noteq> []
     \<and> last_or atoi (-1) (given OPT_PORT opts) \<noteq> -1"

definition wanted_threads :: "(opt \<times> string) list \<Rightarrow> int" where
  "wanted_threads opts = last_or atoi 1 (given OPT_NUMBER_THREADS opts)"

definition memory_ok :: "aenv \<Rightarrow> nat \<Rightarrow> bool" where
  "memory_ok ae n \<longleftrightarrow> ae_calloc_th ae \<and> list_all (ae_calloc_m ae) [0..<n]"

definition initial :: "aenv \<Rightarrow> (opt \<times> string) list \<Rightarrow> app \<Rightarrow> bool" where
  "initial ae opts a \<longleftrightarrow> run_cfg_ok (a_cfg a) \<and> opts_applied (mgr_config_defaults mgr_config_zero) opts (a_cfg a)
     \<and> length (th a) = nat (num_threads (a_cfg a))
     \<and> (\<forall>i < length (th a). th a ! i = \<lparr>t_tid = int i, t_pc = Thr_none,
          t_world = thr_init (ae_env ae i) (thread_cfg (a_cfg a))\<rparr>)
     \<and> main_pc a = M_create 0 \<and> stats_pc a = St_none \<and> a_prev_stats a = mgr_stats_zero
     \<and> printed a = [] \<and> stats_thread_run a = 0
     \<and> a_calls a = concat (map setup_calls (rev [0..<length (th a)]))"

lemma defaults_ok:
  "array_wf (ipv4_dst (mgr_config_defaults mgr_config_zero))"
  "addrs (ipv4_dst (mgr_config_defaults mgr_config_zero)) = []"
  "ints_ok (mgr_config_defaults mgr_config_zero)"
  "uri (mgr_config_defaults mgr_config_zero) = None"
  "port (mgr_config_defaults mgr_config_zero) = -1"
  "num_threads (mgr_config_defaults mgr_config_zero) = 1"
  by (simp_all add: mgr_config_defaults_def mgr_config_zero_def ints_ok_def in_int_def INT_MIN_def
      INT_MAX_def)

lemma fields_ints_ok: "ints_ok g \<Longrightarrow> opts_applied g opts g' \<Longrightarrow> ints_ok g'"
  by (simp add: ints_ok_def opts_applied_def last_or_in_int)

lemma fields_usable:
  assumes "opts_applied (mgr_config_defaults mgr_config_zero) opts g"
  shows "(cfg_ipv4_array_nentries (ipv4_dst g) = 0) = (given OPT_HOST_IP opts = [])"
    "(uri g = None) = (given OPT_URI opts = [])" "port g = last_or atoi (-1) (given OPT_PORT opts)"
    "num_threads g = wanted_threads opts" "array_wf (ipv4_dst g)"
    "addrs (ipv4_dst g) = given OPT_HOST_IP opts"
proof -
  have a: "array_wf (ipv4_dst g)" "addrs (ipv4_dst g) = given OPT_HOST_IP opts"
    using assms by (simp_all add: opts_applied_def defaults_ok)
  then show "array_wf (ipv4_dst g)" "addrs (ipv4_dst g) = given OPT_HOST_IP opts" by simp_all
  have "length (given OPT_HOST_IP opts) = nat (arr_n (ipv4_dst g))" "0 \<le> arr_n (ipv4_dst g)"
    using length_addrs [OF a(1)] a by (simp_all add: array_wf_def)
  then show "(cfg_ipv4_array_nentries (ipv4_dst g) = 0) = (given OPT_HOST_IP opts = [])"
    by (auto simp: cfg_ipv4_array_nentries_def)
  show "(uri g = None) = (given OPT_URI opts = [])"
    "port g = last_or atoi (-1) (given OPT_PORT opts)" "num_threads g = wanted_threads opts"
    using assms by (simp_all add: opts_applied_def defaults_ok last_or_def wanted_threads_def)
qed

lemma setup_cfg: "cfg (mgr (snd (clt_mgr_setup env w))) = cfg (mgr w)"
  by (simp add: clt_mgr_setup_def event_new_def alloc_def upd_mgr_def emit_def Let_def
      split: prod.splits option.splits if_splits)

lemma app_start_threads:
  assumes ae: "aenv_ok ae" and g: "run_cfg_ok g" "memory_ok ae n" and n: "n = nat (num_threads g)"
    and fl: "opts_applied (mgr_config_defaults mgr_config_zero) opts g"
    and a0: "a0 = \<lparr>th = replicate n clt_thr_zero, a_cfg = g, stats_thread_run = 0,
      a_prev_stats = mgr_stats_zero, main_pc = M_create 0, stats_pc = St_none, printed = [],
      a_calls = []\<rparr>"
  shows "\<exists>a a'. setup_threads ae 0 n a0 = Inr a \<and> copy_configs ae 0 n a = Some a' \<and> initial ae opts a'"
proof -
  obtain ts where ts: "setup_threads ae 0 n a0 = Inr (a0\<lparr>th := ts,
      a_calls := concat (map setup_calls (rev [0..<0 + n])) @ a_calls a0\<rparr>)" "length ts = n"
    "\<forall>j < n. ts ! j = set_up ae j clt_thr_zero"
    using setup_threads_ok [of 0 n a0 ae] g(2) by (auto simp: memory_ok_def list_all_iff a0)
  define a where "a = a0\<lparr>th := ts, a_calls := concat (map setup_calls (rev [0..<0 + n])) @ a_calls a0\<rparr>"
  have a: "a_cfg a = g" "th a = ts" by (simp_all add: a_def a0)
  have z: "cfg (mgr (t_world (th a ! j))) = mgr_config_zero" if "j < n" for j
    using ts(3) that
    by (simp add: a set_up_def setup_cfg clt_thr_zero_def worker_zero_def clt_mgr_zero_def)
  obtain ts' where ts': "copy_configs ae 0 n a = Some (a\<lparr>th := ts'\<rparr>)" "length ts' = n"
    "\<forall>j < n. ts' ! j = (ts ! j)\<lparr>t_world :=
       upd_mgr (\<lambda>m. m\<lparr>cfg := thread_cfg g\<rparr>) (t_world (ts ! j))\<rparr>"
    using copy_configs_spec [of 0 n a ae] z ts(2) n g(1) ae by (auto simp: a aenv_ok_def)
  have "initial ae opts (a\<lparr>th := ts'\<rparr>)"
    using g(1) fl n ts(3) ts'(2,3)
    by (simp add: initial_def a_def a0 thr_init_def set_up_def clt_thr_zero_def)
  then show ?thesis using ts(1) ts'(1) by (simp add: a_def)
qed

lemma app_start_result:
  assumes ae: "aenv_ok ae"
  shows "if \<not> usable opts then app_start ae opts = Some (Inl 128)
    else if wanted_threads opts < 0 \<or> \<not> memory_ok ae (nat (wanted_threads opts))
    then app_start ae opts = Some (Inl 127)
    else \<exists>a. app_start ae opts = Some (Inr a) \<and> initial ae opts a"
proof -
  let ?g0 = "mgr_config_defaults mgr_config_zero"
  have sd: "ae_strdup ae = (\<lambda>_. True)" using ae by (simp add: aenv_ok_def)
  obtain rc g where p: "parse_opts (\<lambda>_. True) opts ?g0 = Some (rc, g)"
    "rc = 0 \<longleftrightarrow> list_all (\<lambda>(c, _). accepted c) opts \<and> length (given OPT_HOST_IP opts) \<le> 16"
    using parse_opts_result [OF defaults_ok(1), of opts] defaults_ok(2) by auto
  show ?thesis
  proof (cases "rc = 0")
    case False
    then show ?thesis using p sd by (auto simp: app_start_def usable_def)
  next
    case True
    have fl: "opts_applied ?g0 opts g" by (rule parse_opts_fields [OF defaults_ok(1)]) (use p True in simp)
    note F = fields_usable [OF fl]
    have us: "usable opts \<longleftrightarrow> \<not> (cfg_ipv4_array_nentries (ipv4_dst g) = 0 \<or> uri g = None \<or> port g = -1)"
      using F p(2) True by (auto simp: usable_def)
    show ?thesis
    proof (cases "usable opts \<and> 0 \<le> num_threads g \<and> ae_calloc_th ae")
      case False
      then show ?thesis using us p(1) True sd F(4)
        by (auto simp: app_start_def memory_ok_def)
    next
      case ok: True
      define n where "n = nat (num_threads g)"
      define a0 where "a0 = \<lparr>th = replicate n clt_thr_zero, a_cfg = g, stats_thread_run = 0,
        a_prev_stats = mgr_stats_zero, main_pc = M_create 0, stats_pc = St_none, printed = [],
        a_calls = []\<rparr>"
      have e: "app_start ae opts = (case setup_threads ae 0 n a0 of Inl rc \<Rightarrow> Some (Inl rc)
          | Inr a \<Rightarrow> map_option Inr (copy_configs ae 0 n a))"
      proof -
        have "\<exists>u. uri g = Some u" "cfg_ipv4_array_nentries (ipv4_dst g) \<noteq> 0" "port g \<noteq> -1"
          "0 \<le> num_threads g" "ae_calloc_th ae" using ok us by auto
        then show ?thesis using p(1) True sd unfolding n_def a0_def app_start_def Let_def by auto
      qed
      show ?thesis
      proof (cases "memory_ok ae n")
        case True
        have "run_cfg_ok g"
          using us ok F(1,5,6) fields_ints_ok [OF defaults_ok(3) fl] by (simp add: run_cfg_ok_def)
        then show ?thesis
          using app_start_threads [OF ae _ True n_def fl a0_def] e True ok F(4)
          by (auto simp: n_def)
      next
        case False
        then obtain j where "j < n" "\<not> ae_calloc_m ae j"
          using ok by (auto simp: memory_ok_def list_all_iff)
        then have "setup_threads ae 0 n a0 = Inl 127"
          using setup_threads_fail [of 0 n a0 j ae] by (simp add: a0_def)
        then show ?thesis using e False ok F(4) by (simp add: n_def)
      qed
    qed
  qed
qed

end
