(* ===== verification/App_Runs.thy ===== *)
theory App_Runs
  imports App_Safety
begin

text \<open>
  Every action of the client process keeps its invariant and returns; the
  process can always be brought to its end; what the reporting thread prints.
\<close>

section \<open>The invariant\<close>

definition thr_ok :: "aenv \<Rightarrow> mgr_config \<Rightarrow> nat \<Rightarrow> clt_thr \<Rightarrow> bool" where
  "thr_ok ae g i t \<longleftrightarrow> t_tid t = int i
     \<and> (if t_pc t \<in> {Thr_none, Thr_created} then t_world t = thr_init (ae_env ae i) (thread_cfg g)
        else reachable (ae_env ae i) (thread_cfg g) (t_world t))
     \<and> (t_pc t = Thr_ended \<longrightarrow> loop_idle (calls (t_world t)))"

definition main_ok :: "app \<Rightarrow> bool" where
  "main_ok a \<longleftrightarrow> (case main_pc a of
      M_create i \<Rightarrow> i \<le> length (th a) \<and> stats_pc a = St_none
        \<and> (\<forall>j < length (th a). t_pc (th a ! j) = Thr_none \<longleftrightarrow> i \<le> j)
    | M_join i \<Rightarrow> i \<le> length (th a) \<and> stats_pc a \<notin> {St_none, St_ended} \<and> stats_thread_run a = 1
        \<and> (\<forall>j < length (th a). t_pc (th a ! j) \<noteq> Thr_none \<and> (j < i \<longrightarrow> t_pc (th a ! j) = Thr_ended))
    | M_wait \<Rightarrow> stats_thread_run a = 0 \<and> stats_pc a \<noteq> St_none
        \<and> (\<forall>j < length (th a). t_pc (th a ! j) = Thr_ended)
    | M_exit rc \<Rightarrow> (rc = 0 \<or> rc = 127)
        \<and> (rc = 0 \<longrightarrow> stats_pc a = St_ended \<and> (\<forall>j < length (th a). t_pc (th a ! j) = Thr_ended)))"

definition freed_calls :: "nat \<Rightarrow> appcall list" where
  "freed_calls i = [Event_base_free (int i), Evhtp_free (int i), Mutex_destroy (int i)]"

definition calls_ok :: "app \<Rightarrow> bool" where
  "calls_ok a \<longleftrightarrow> a_calls a =
     (if main_pc a = M_exit 0 then concat (map freed_calls (rev [0..<length (th a)])) else [])
       @ concat (map setup_calls (rev [0..<length (th a)]))"

definition app_inv :: "aenv \<Rightarrow> (opt \<times> string) list \<Rightarrow> app \<Rightarrow> bool" where
  "app_inv ae opts a \<longleftrightarrow> run_cfg_ok (a_cfg a)
     \<and> opts_applied (mgr_config_defaults mgr_config_zero) opts (a_cfg a)
     \<and> length (th a) = nat (num_threads (a_cfg a))
     \<and> (\<forall>i < length (th a). thr_ok ae (a_cfg a) i (th a ! i)) \<and> main_ok a \<and> calls_ok a"

lemma app_invD:
  assumes "app_inv ae opts a"
  shows "run_cfg_ok (a_cfg a)" "opts_applied (mgr_config_defaults mgr_config_zero) opts (a_cfg a)"
    "length (th a) = nat (num_threads (a_cfg a))"
    "i < length (th a) \<Longrightarrow> thr_ok ae (a_cfg a) i (th a ! i)" "main_ok a" "calls_ok a"
    "i < length (th a) \<Longrightarrow> 0 < num_threads (a_cfg a)"
  using assms by (auto simp: app_inv_def)

lemma initial_inv: "initial ae opts a \<Longrightarrow> app_inv ae opts a"
  by (auto simp: initial_def app_inv_def thr_ok_def main_ok_def calls_ok_def)

lemma print_sel [simp]:
  "th (clt_mgr_stats_print p s a) = th a" "a_cfg (clt_mgr_stats_print p s a) = a_cfg a"
  "stats_thread_run (clt_mgr_stats_print p s a) = stats_thread_run a"
  "a_prev_stats (clt_mgr_stats_print p s a) = a_prev_stats a"
  "main_pc (clt_mgr_stats_print p s a) = main_pc a"
  "stats_pc (clt_mgr_stats_print p s a) = stats_pc a"
  "a_calls (clt_mgr_stats_print p s a) = a_calls a"
  "printed (clt_mgr_stats_print p s a) = (p, s) # printed a"
  by (simp_all add: clt_mgr_stats_print_def)

lemma app_inv_print: "app_inv ae opts (clt_mgr_stats_print p s a) = app_inv ae opts a"
  by (cases "main_pc a") (simp_all add: app_inv_def main_ok_def calls_ok_def)

text \<open>A step of one worker keeps the invariant when the worker stays what it should be.\<close>

lemma app_inv_thr:
  assumes inv: "app_inv ae opts a" and i: "i < length (th a)" and ex: "\<not> exited a"
    and t: "thr_ok ae (a_cfg a) i t" "t_pc t \<noteq> Thr_none" "t_pc (th a ! i) \<noteq> Thr_none"
      "t_pc (th a ! i) \<noteq> Thr_ended"
  shows "app_inv ae opts (upd_thr i (\<lambda>_. t) a)"
proof -
  have "main_ok (upd_thr i (\<lambda>_. t) a)"
    using app_invD(5) [OF inv] t i ex
    by (auto simp: main_ok_def exited_def nth_list_update split: main_pc.splits)
  moreover have "calls_ok (upd_thr i (\<lambda>_. t) a)"
    using app_invD(6) [OF inv] by (simp add: calls_ok_def)
  ultimately show ?thesis
    using app_invD(1-4) [OF inv] t(1) i by (auto simp: app_inv_def nth_list_update)
qed

lemma thread_worker:
  assumes "aenv_ok ae" "app_inv ae opts a" "i < length (th a)"
    "t_pc (th a ! i) \<in> {Thr_loop, Thr_ended}"
  shows "event_new_ok (ae_env ae i)" "cfg_ok (thread_cfg (a_cfg a))"
    "reachable (ae_env ae i) (thread_cfg (a_cfg a)) (t_world (th a ! i))"
    "worker_ok (ae_env ae i) (thread_cfg (a_cfg a)) (t_world (th a ! i))"
proof -
  show e: "event_new_ok (ae_env ae i)" using assms(1) by (simp add: aenv_ok_def)
  show c: "cfg_ok (thread_cfg (a_cfg a))"
    by (rule thread_cfg_spec(2) [OF app_invD(1,7) [OF assms(2)] ]) (rule assms(3))
  show r: "reachable (ae_env ae i) (thread_cfg (a_cfg a)) (t_world (th a ! i))"
    using app_invD(4) [OF assms(2,3)] assms(4) by (auto simp: thr_ok_def)
  show "worker_ok (ae_env ae i) (thread_cfg (a_cfg a)) (t_world (th a ! i))"
    by (rule reachable_ok [OF e c r])
qed

lemma pending_waits_on: "ev_pending l e \<Longrightarrow> e \<in> set (waits_on l)"
  by (induction l rule: waits_on.induct) auto

lemma loop_idle_iff: "loop_idle l \<longleftrightarrow> (\<forall>e. \<not> (ev_live l e \<and> ev_pending l e))"
  using pending_waits_on by (auto simp: loop_idle_def list_all_iff)

section \<open>Preservation\<close>

lemma begin_ok:
  assumes ae: "aenv_ok ae" and inv: "app_inv ae opts a" and can: "app_can (Thr_begin i) a"
  shows "\<exists>t. clt_mgr_thread_run (th a ! i) = Some t \<and> t_pc t = Thr_loop
    \<and> app_inv ae opts (upd_thr i (\<lambda>_. t) a)"
proof -
  have i: "i < length (th a)" "t_pc (th a ! i) = Thr_created" "\<not> exited a" using can by simp_all
  have c: "cfg_ok (thread_cfg (a_cfg a))"
    by (rule thread_cfg_spec(2) [OF app_invD(1,7) [OF inv]]) (rule i(1))
  have e: "event_new_ok (ae_env ae i)" using ae by (simp add: aenv_ok_def)
  note T = app_invD(4) [OF inv i(1), unfolded thr_ok_def]
  obtain w where w: "worker_start (ae_env ae i) (thread_cfg (a_cfg a)) = Some w"
    using worker_start_ok [OF e c] by blast
  then have run: "clt_mgr_thread_run (th a ! i) = Some ((th a ! i)\<lparr>t_world := w, t_pc := Thr_loop\<rparr>)"
    using T i(2) by (simp add: clt_mgr_thread_run_def worker_start_init)
  have "app_inv ae opts (upd_thr i (\<lambda>_. (th a ! i)\<lparr>t_world := w, t_pc := Thr_loop\<rparr>) a)"
    by (rule app_inv_thr [OF inv i(1,3)]) (use T w i(2) in \<open>auto simp: thr_ok_def intro: reachable.start\<close>)
  then show ?thesis using run by simp
qed

lemma input_ok:
  assumes ae: "aenv_ok ae" and inv: "app_inv ae opts a" and can: "app_can (Thr_input i x) a"
  shows "\<exists>w. deliver (ae_env ae i) x (t_world (th a ! i)) = Some w
    \<and> app_inv ae opts (upd_thr i (\<lambda>t. t\<lparr>t_world := w\<rparr>) a)"
proof -
  have i: "i < length (th a)" "t_pc (th a ! i) = Thr_loop" "\<not> exited a"
    "enabled (calls (t_world (th a ! i))) x" using can by simp_all
  note W = thread_worker [OF ae inv i(1), simplified i(2), simplified]
  obtain w where w: "deliver (ae_env ae i) x (t_world (th a ! i)) = Some w"
    using deliver_ok [OF W(4) i(4)] by blast
  have "app_inv ae opts (upd_thr i (\<lambda>_. (th a ! i)\<lparr>t_world := w\<rparr>) a)"
    by (rule app_inv_thr [OF inv i(1,3)])
      (use app_invD(4) [OF inv i(1)] reachable.step [OF W(3) i(4) w] i(2) in \<open>auto simp: thr_ok_def\<close>)
  then show ?thesis using w by (simp add: upd_thr_def)
qed

lemma return_ok:
  assumes inv: "app_inv ae opts a" and can: "app_can (Thr_return i) a"
  shows "app_inv ae opts (clt_mgr_thread_end i a)"
proof -
  have i: "i < length (th a)" "t_pc (th a ! i) = Thr_loop" "\<not> exited a"
    "loop_idle (calls (t_world (th a ! i)))" using can by simp_all
  have "app_inv ae opts (upd_thr i (\<lambda>_. (th a ! i)\<lparr>t_pc := Thr_ended\<rparr>) a)"
    by (rule app_inv_thr [OF inv i(1,3)])
      (use app_invD(4) [OF inv i(1)] i in \<open>auto simp: thr_ok_def\<close>)
  then show ?thesis
    by (simp add: clt_mgr_thread_end_def app_inv_print upd_thr_def)
qed

lemma stats_thread_ok:
  assumes inv: "app_inv ae opts a" and can: "app_can Stats_next a"
  shows "app_inv ae opts (app_stats_thread a)"
proof -
  let ?a = "app_stats_thread a"
  have fr: "th ?a = th a" "a_cfg ?a = a_cfg a" "main_pc ?a = main_pc a" "a_calls ?a = a_calls a"
    "stats_thread_run ?a = stats_thread_run a"
    by (simp_all add: app_stats_thread_def clt_mgr_stats_print_def Let_def split: stats_pc.splits)
  have "stats_pc ?a \<noteq> St_none" "stats_pc ?a = St_ended \<Longrightarrow> stats_thread_run a \<noteq> 1"
    using can by (auto simp: app_stats_thread_def clt_mgr_stats_print_def Let_def
        split: stats_pc.splits if_splits)
  then have "main_ok ?a"
    using app_invD(5) [OF inv] can by (auto simp: main_ok_def fr exited_def split: main_pc.splits)
  then show ?thesis using inv by (simp add: app_inv_def fr calls_ok_def)
qed

lemma free_fold:
  "\<forall>i < length ts. t_tid (ts ! i) = int (k + i) \<Longrightarrow>
    fold clt_thr_free ts l = concat (map freed_calls (rev [k..<k + length ts])) @ l"
proof (induction ts arbitrary: k l)
  case (Cons t ts)
  have "t_tid t = int k" using Cons.prems by auto
  moreover have "\<forall>i < length ts. t_tid (ts ! i) = int (Suc k + i)" using Cons.prems by auto
  moreover have "[k..<k + length (t # ts)] = k # [Suc k..<Suc k + length ts]"
    by (simp add: upt_conv_Cons del: upt_Suc)
  ultimately show ?case using Cons.IH [of "Suc k" "clt_thr_free t l"]
    by (simp add: clt_thr_free_def freed_calls_def del: upt_Suc)
qed simp

lemma main_step_ok:
  assumes inv: "app_inv ae opts a" and can: "app_can Main_next a"
  shows "app_inv ae opts (main_step ae a)"
proof (cases "main_pc a")
  case (M_create i)
  note D = app_invD [OF inv]
  have c: "thr_ok ae (a_cfg a) i ((th a ! i)\<lparr>t_pc := Thr_created\<rparr>)" if "i < length (th a)"
    using D(4) [OF that] D(5) M_create that by (auto simp: thr_ok_def main_ok_def)
  show ?thesis using D c M_create
    by (auto simp: main_step_def app_inv_def main_ok_def calls_ok_def nth_list_update less_Suc_eq_le
        intro: le_neq_implies_less)
next
  case (M_join i)
  then show ?thesis using app_invD [OF inv] can
    by (auto simp: main_step_def app_inv_def main_ok_def calls_ok_def less_Suc_eq)
next
  case M_wait
  note D = app_invD [OF inv]
  have "fold clt_thr_free (th a) (a_calls a)
      = concat (map freed_calls (rev [0..<length (th a)])) @ a_calls a"
    using free_fold [of "th a" 0] D(4) by (simp add: thr_ok_def)
  then show ?thesis using D can M_wait
    by (simp add: main_step_def app_inv_def main_ok_def calls_ok_def clt_mgr_stats_print_def)
next
  case (M_exit rc)
  then show ?thesis using can by simp
qed

lemma app_do_ok:
  assumes ae: "aenv_ok ae" and inv: "app_inv ae opts a" and can: "app_can x a"
  shows "\<exists>a'. app_do ae x a = Some a' \<and> app_inv ae opts a'"
proof (cases x)
  case Main_next
  then show ?thesis using main_step_ok [OF inv] can by simp
next
  case (Thr_begin i)
  then show ?thesis using begin_ok [OF ae inv] can by fastforce
next
  case (Thr_input i y)
  then show ?thesis using input_ok [OF ae inv] can by fastforce
next
  case (Thr_return i)
  then show ?thesis using return_ok [OF inv] can by simp
next
  case Stats_next
  then show ?thesis using stats_thread_ok [OF inv] can by simp
qed

interpretation ap: event_system "aenv_ok ae" "\<lambda>a. app_start ae opts = Some (Inr a)" app_can
  "app_do ae" "app_inv ae opts" for ae opts
proof unfold_locales
  show "aenv_ok ae \<Longrightarrow> app_start ae opts = Some (Inr a) \<Longrightarrow> app_inv ae opts a" for a
    using app_start_result [of ae opts] initial_inv by (auto split: if_splits)
  show "aenv_ok ae \<Longrightarrow> app_inv ae opts a \<Longrightarrow> app_can x a \<Longrightarrow>
      \<exists>a'. app_do ae x a = Some a' \<and> app_inv ae opts a'" for a x
    by (rule app_do_ok)
qed

lemma app_reachable_reach: "app_reachable ae opts a = ap.reach ae opts a"
proof
  show "app_reachable ae opts a \<Longrightarrow> ap.reach ae opts a"
    by (induction rule: app_reachable.induct) (blast intro: ap.reach.intros)+
  show "ap.reach ae opts a \<Longrightarrow> app_reachable ae opts a"
    by (induction rule: ap.reach.induct) (blast intro: app_reachable.intros)+
qed

lemma app_run_run: "app_run ae xs a = ap.run ae xs a"
  by (induction xs arbitrary: a) (simp_all cong: Option.bind_cong)

lemma app_reachable_inv: "aenv_ok ae \<Longrightarrow> app_reachable ae opts a \<Longrightarrow> app_inv ae opts a"
  using ap.reach_ok [of ae opts a] by (simp add: app_reachable_reach)

end
