(* ===== verification/App_Ends.thy ===== *)
theory App_Ends
  imports App_Runs
begin

text \<open>
  How the client process ends: it can always be brought to its end, what the
  reporting thread has printed by then, and what the workers together have done.
\<close>

section \<open>Reaching the end\<close>

definition leads_to :: "aenv \<Rightarrow> app \<Rightarrow> app \<Rightarrow> bool" where
  "leads_to ae a b \<longleftrightarrow> (\<exists>xs. app_run ae xs a = Some b)"

lemma app_run_append:
  "app_run ae (xs @ ys) a = do { a \<leftarrow> app_run ae xs a; app_run ae ys a }"
  unfolding app_run_run by (rule ap.run_append)

lemma leads_to_refl: "leads_to ae a a"
  unfolding leads_to_def by (rule exI [of _ "[]"]) simp

lemma leads_to_trans: "leads_to ae a b \<Longrightarrow> leads_to ae b c \<Longrightarrow> leads_to ae a c"
  unfolding leads_to_def by (metis app_run_append bind.bind_lunit)

lemma leads_to_step: "app_can x a \<Longrightarrow> app_do ae x a = Some b \<Longrightarrow> leads_to ae a b"
  unfolding leads_to_def by (rule exI [of _ "[x]"]) simp

lemma leads_to_reachable: "leads_to ae a b \<Longrightarrow> app_reachable ae opts a \<Longrightarrow> app_reachable ae opts b"
  unfolding leads_to_def app_run_run app_reachable_reach using ap.run_reach by blast

text \<open>Of a process that goes on, only one worker changes.\<close>

definition same_but :: "nat \<Rightarrow> app \<Rightarrow> app \<Rightarrow> bool" where
  "same_but i a b \<longleftrightarrow> main_pc b = main_pc a \<and> stats_pc b = stats_pc a \<and> a_cfg b = a_cfg a
     \<and> length (th b) = length (th a) \<and> (\<forall>j < length (th a). j \<noteq> i \<longrightarrow> th b ! j = th a ! j)"

lemma worker_inputs:
  assumes "aenv_ok ae" "app_inv ae opts a" "i < length (th a)" "t_pc (th a ! i) = Thr_loop"
    "\<not> exited a" "deliver_all (ae_env ae i) is (t_world (th a ! i)) = Some w"
  shows "\<exists>b. leads_to ae a b \<and> app_inv ae opts b \<and> same_but i a b \<and> t_pc (th b ! i) = Thr_loop
    \<and> t_world (th b ! i) = w"
  using assms
proof (induction "is" arbitrary: a)
  case Nil
  then show ?case using leads_to_refl by (intro exI [of _ a]) (simp add: same_but_def)
next
  case (Cons x "is")
  obtain w1 where w1: "enabled (calls (t_world (th a ! i))) x"
    "deliver (ae_env ae i) x (t_world (th a ! i)) = Some w1"
    "deliver_all (ae_env ae i) is w1 = Some w"
    using Cons.prems(6) by (auto simp: bind_eq_Some_iff split: if_splits)
  define a1 where "a1 = upd_thr i (\<lambda>t. t\<lparr>t_world := w1\<rparr>) a"
  have can: "app_can (Thr_input i x) a" using Cons.prems w1 by simp
  have inv: "app_inv ae opts a1" using input_ok [OF Cons.prems(1,2) can] w1(2) by (simp add: a1_def)
  have a1: "i < length (th a1)" "t_pc (th a1 ! i) = Thr_loop" "\<not> exited a1" "t_world (th a1 ! i) = w1"
    "same_but i a a1"
    using Cons.prems(3-5) by (simp_all add: a1_def exited_def same_but_def)
  obtain b where b: "leads_to ae a1 b" "app_inv ae opts b" "same_but i a1 b"
    "t_pc (th b ! i) = Thr_loop" "t_world (th b ! i) = w"
    using Cons.IH [OF Cons.prems(1) inv a1(1-3)] w1(3) a1(4) by auto
  have "leads_to ae a a1" by (rule leads_to_step [OF can]) (use w1(2) in \<open>simp add: a1_def\<close>)
  then show ?case using b a1(5) leads_to_trans
    by (intro exI [of _ b]) (auto simp: same_but_def)
qed

lemma worker_ends:
  assumes ae: "aenv_ok ae" and inv: "app_inv ae opts a" and i: "i < length (th a)" and ex: "\<not> exited a"
    and pc: "t_pc (th a ! i) \<noteq> Thr_none" and per: "0 \<le> running_period_sec (a_cfg a)"
  shows "\<exists>b. leads_to ae a b \<and> app_inv ae opts b \<and> same_but i a b \<and> t_pc (th b ! i) = Thr_ended"
proof -
  have loop: "\<exists>b. leads_to ae a b \<and> app_inv ae opts b \<and> same_but i a b \<and> t_pc (th b ! i) = Thr_ended"
    if a: "app_inv ae opts a" "i < length (th a)" "\<not> exited a" "t_pc (th a ! i) = Thr_loop"
      "0 \<le> running_period_sec (a_cfg a)" for a
  proof -
    note W = thread_worker [OF ae a(1,2), simplified a(4), simplified]
    have "0 \<le> running_period_sec (thread_cfg (a_cfg a))"
      using thread_cfg_spec(5) [OF app_invD(1,7) [OF a(1)]] a(2,5) by simp
    then obtain "is" w where w: "deliver_all (ae_env ae i) is (t_world (th a ! i)) = Some w"
      "mgr_state (mgr w) = CLT_MGR_STATE_COMPLETED" "\<not> ev_pending (calls w) T_stat"
      using worker_completes [OF W(4)] unfolding done_within_def by blast
    have "worker_ok (ae_env ae i) (thread_cfg (a_cfg a)) w"
      by (rule reachable_ok [OF W(1,2) deliver_all_reachable [OF W(3) w(1)]])
    then have idle: "loop_idle (calls w)" using idle_completed w(2,3) by (simp add: loop_idle_iff)
    obtain b where b: "leads_to ae a b" "app_inv ae opts b" "same_but i a b"
      "t_pc (th b ! i) = Thr_loop" "t_world (th b ! i) = w"
      using worker_inputs [OF ae a(1,2,4,3) w(1)] by blast
    have can: "app_can (Thr_return i) b"
      using b(3,4,5) idle a(2,3) by (simp add: same_but_def exited_def)
    have "leads_to ae b (clt_mgr_thread_end i b)" by (rule leads_to_step [OF can]) simp
    then show ?thesis using leads_to_trans [OF b(1)] return_ok [OF b(2) can] b(3) a(2)
      by (intro exI [of _ "clt_mgr_thread_end i b"]) (auto simp: same_but_def clt_mgr_thread_end_def)
  qed
  show ?thesis
  proof (cases "t_pc (th a ! i)")
    case Thr_created
    then have can: "app_can (Thr_begin i) a" using i ex by simp
    obtain t where t: "clt_mgr_thread_run (th a ! i) = Some t" "t_pc t = Thr_loop"
      "app_inv ae opts (upd_thr i (\<lambda>_. t) a)" using begin_ok [OF ae inv can] by blast
    let ?a = "upd_thr i (\<lambda>_. t) a"
    obtain b where b: "leads_to ae ?a b" "app_inv ae opts b" "same_but i ?a b"
      "t_pc (th b ! i) = Thr_ended"
      using loop [OF t(3)] i ex t(2) per by (auto simp: exited_def)
    have "leads_to ae a ?a" by (rule leads_to_step [OF can]) (use t(1) in simp)
    then show ?thesis using b leads_to_trans by (intro exI [of _ b]) (auto simp: same_but_def)
  next
    case Thr_loop
    then show ?thesis using loop [OF inv i ex] per by blast
  next
    case Thr_ended
    then show ?thesis using inv leads_to_refl by (intro exI [of _ a]) (simp add: same_but_def)
  qed (use pc in simp)
qed

lemma workers_end:
  assumes ae: "aenv_ok ae" and inv: "app_inv ae opts a" and ex: "\<not> exited a"
    and per: "0 \<le> running_period_sec (a_cfg a)"
    and pc: "\<forall>j < length (th a). t_pc (th a ! j) \<noteq> Thr_none"
  shows "k \<le> length (th a) \<Longrightarrow> \<exists>b. leads_to ae a b \<and> app_inv ae opts b \<and> main_pc b = main_pc a
    \<and> stats_pc b = stats_pc a \<and> a_cfg b = a_cfg a \<and> length (th b) = length (th a)
    \<and> (\<forall>j < length (th a). t_pc (th b ! j) \<noteq> Thr_none \<and> (j < k \<longrightarrow> t_pc (th b ! j) = Thr_ended))"
proof (induction k)
  case 0
  then show ?case using inv pc leads_to_refl by (intro exI [of _ a]) simp
next
  case (Suc k)
  then obtain b where b: "leads_to ae a b" "app_inv ae opts b" "main_pc b = main_pc a"
    "stats_pc b = stats_pc a" "a_cfg b = a_cfg a" "length (th b) = length (th a)"
    "\<forall>j < length (th a). t_pc (th b ! j) \<noteq> Thr_none \<and> (j < k \<longrightarrow> t_pc (th b ! j) = Thr_ended)"
    by auto
  obtain c where c: "leads_to ae b c" "app_inv ae opts c" "same_but k b c" "t_pc (th c ! k) = Thr_ended"
    using worker_ends [OF ae b(2), of k] Suc.prems b(3,5-7) ex per by (auto simp: exited_def)
  have "t_pc (th c ! j) \<noteq> Thr_none \<and> (j < Suc k \<longrightarrow> t_pc (th c ! j) = Thr_ended)"
    if "j < length (th a)" for j
    using that b(6,7) c(3,4) by (cases "j = k") (auto simp: same_but_def)
  then show ?case using leads_to_trans [OF b(1) c(1)] c(2,3) b(3-6)
    by (intro exI [of _ c]) (auto simp: same_but_def)
qed

lemma creates_all:
  assumes ae: "aenv_ok ae" "ae_create ae = (\<lambda>_. True)" "ae_create_stats ae"
  shows "app_inv ae opts a \<Longrightarrow> main_pc a = M_create i \<Longrightarrow>
    \<exists>b. leads_to ae a b \<and> app_inv ae opts b \<and> main_pc b = M_join 0 \<and> a_cfg b = a_cfg a
      \<and> stats_pc b = St_check"
proof (induction "length (th a) - i" arbitrary: a i rule: less_induct)
  case less
  have can: "app_can Main_next a" using less.prems by simp
  have go: "leads_to ae a (main_step ae a)" by (rule leads_to_step [OF can]) simp
  have inv: "app_inv ae opts (main_step ae a)" by (rule main_step_ok [OF less.prems(1) can])
  show ?case
  proof (cases "i < length (th a)")
    case True
    then have s: "main_pc (main_step ae a) = M_create (Suc i)" "length (th (main_step ae a)) = length (th a)"
      "a_cfg (main_step ae a) = a_cfg a"
      using less.prems(2) ae by (simp_all add: main_step_def)
    obtain b where "leads_to ae (main_step ae a) b" "app_inv ae opts b" "main_pc b = M_join 0"
      "a_cfg b = a_cfg a" "stats_pc b = St_check"
      using less.hyps [OF _ inv s(1)] s(2,3) diff_less_mono2 [OF lessI True] by auto
    then show ?thesis using leads_to_trans [OF go] by blast
  next
    case False
    then have "main_pc (main_step ae a) = M_join 0" "a_cfg (main_step ae a) = a_cfg a"
      "stats_pc (main_step ae a) = St_check"
      using less.prems(2) ae by (simp_all add: main_step_def)
    then show ?thesis using go inv by blast
  qed
qed

lemma joins_all:
  "app_inv ae opts a \<Longrightarrow> main_pc a = M_join i \<Longrightarrow> \<forall>j < length (th a). t_pc (th a ! j) = Thr_ended \<Longrightarrow>
    \<exists>b. leads_to ae a b \<and> app_inv ae opts b \<and> main_pc b = M_wait \<and> stats_pc b = stats_pc a"
proof (induction "length (th a) - i" arbitrary: a i rule: less_induct)
  case less
  have can: "app_can Main_next a" using less.prems by simp
  have go: "leads_to ae a (main_step ae a)" by (rule leads_to_step [OF can]) simp
  have inv: "app_inv ae opts (main_step ae a)" by (rule main_step_ok [OF less.prems(1) can])
  show ?case
  proof (cases "i < length (th a)")
    case True
    then have s: "main_pc (main_step ae a) = M_join (Suc i)" "th (main_step ae a) = th a"
      "stats_pc (main_step ae a) = stats_pc a"
      using less.prems(2) by (simp_all add: main_step_def)
    obtain b where "leads_to ae (main_step ae a) b" "app_inv ae opts b" "main_pc b = M_wait"
      "stats_pc b = stats_pc a"
      using less.hyps [OF _ inv s(1)] s(2,3) diff_less_mono2 [OF lessI True] less.prems(3) by auto
    then show ?thesis using leads_to_trans [OF go] by blast
  next
    case False
    then have "main_pc (main_step ae a) = M_wait" "stats_pc (main_step ae a) = stats_pc a"
      using less.prems(2) by (simp_all add: main_step_def)
    then show ?thesis using go inv by blast
  qed
qed

section \<open>The reporting thread\<close>

definition published :: "clt_thr list \<Rightarrow> mgr_stats" where
  \<comment> \<open>the statistics one round over the threads adds up\<close>
  "published ts = fold (\<lambda>t. mgr_stats_add (prev_stats (t_world t))) ts mgr_stats_zero"

definition final_stats :: "clt_thr list \<Rightarrow> mgr_stats" where
  \<comment> \<open>what the managers have counted\<close>
  "final_stats ts = fold (\<lambda>t. mgr_stats_add (stats (mgr (t_world t)))) ts mgr_stats_zero"

definition lines :: "string \<Rightarrow> app \<Rightarrow> mgr_stats list" where
  \<comment> \<open>the lines printed with a prefix, in order\<close>
  "lines p a = map snd (filter (\<lambda>l. fst l = p) (rev (printed a)))"

lemma lines_print [simp]:
  "lines p (clt_mgr_stats_print q s a) = lines p a @ (if q = p then [s] else [])"
  by (simp add: lines_def)

lemma collect_run:
  "\<not> exited a \<Longrightarrow> stats_pc a = St_collect i s \<Longrightarrow>
    \<exists>b. app_run ae (replicate (Suc (length (th a) - i)) Stats_next) a = Some b \<and> stats_pc b = St_check
     \<and> a_prev_stats b = fold (\<lambda>t. mgr_stats_add (prev_stats (t_world t))) (drop i (th a)) s
     \<and> th b = th a \<and> main_pc b = main_pc a \<and> stats_thread_run b = stats_thread_run a
     \<and> lines ''run_total'' b = lines ''run_total'' a"
proof (induction "length (th a) - i" arbitrary: a i s)
  case 0
  then show ?case
    by (simp add: app_stats_thread_def Let_def mgr_stats_copy_def)
      (simp add: lines_def)
next
  case (Suc n)
  let ?s = "mgr_stats_add (prev_stats (t_world (th a ! i))) s"
  let ?a = "a\<lparr>stats_pc := St_collect (Suc i) ?s\<rparr>"
  have lt: "i < length (th a)" using Suc.hyps(2) by simp
  have "app_run ae (replicate (Suc (length (th a) - i)) Stats_next) a
      = app_run ae (replicate (Suc (length (th ?a) - Suc i)) Stats_next) ?a"
    using Suc.prems lt Suc.hyps(2) by (simp add: app_stats_thread_def Suc_diff_Suc [OF lt, symmetric])
  moreover have "drop i (th a) = th a ! i # drop (Suc i) (th a)" using lt by (rule Cons_nth_drop_Suc [symmetric])
  ultimately show ?case
    using Suc.hyps(1) [of ?a "Suc i" ?s] Suc.hyps(2) Suc.prems(1)
    by (simp add: exited_def lines_def)
qed

definition reports_ok :: "app \<Rightarrow> bool" where
  "reports_ok a \<longleftrightarrow> lines ''interval_diff'' a = st.diffs mgr_stats_zero (lines ''interval_total'' a)
     \<and> list_all stats_wf (lines ''interval_total'' a)
     \<and> a_prev_stats a = last (mgr_stats_zero # lines ''interval_total'' a)
     \<and> (\<forall>i s. stats_pc a = St_collect i s \<longrightarrow> stats_wf s)
     \<and> lines ''run_total'' a = (if main_pc a = M_exit 0 then [a_prev_stats a] else [])"

lemma thread_name_ne [simp]:
  "thread_name i \<noteq> ''interval_diff''" "thread_name i \<noteq> ''interval_total''"
  "thread_name i \<noteq> ''run_total''"
  by (simp_all add: thread_name_def)

lemma reports_cong:
  assumes "reports_ok a" "printed b = printed a" "a_prev_stats b = a_prev_stats a"
    "\<And>i s. stats_pc b = St_collect i s \<Longrightarrow> stats_wf s" "main_pc a \<noteq> M_exit 0" "main_pc b \<noteq> M_exit 0"
  shows "reports_ok b"
proof -
  have "lines p b = lines p a" for p using assms(2) by (simp add: lines_def)
  then show ?thesis using assms by (simp add: reports_ok_def)
qed

lemma reports_main:
  assumes rep: "reports_ok a" and can: "app_can Main_next a"
  shows "reports_ok (main_step ae a)"
proof (cases "main_pc a = M_wait")
  case True
  have l: "lines p (main_step ae a) = lines p a @ (if p = ''run_total'' then [a_prev_stats a] else [])" for p
    using True by (simp add: main_step_def lines_def)
  show ?thesis using rep can True unfolding reports_ok_def l by (simp add: main_step_def)
next
  case False
  have w: "stats_pc a = St_collect i s \<Longrightarrow> stats_wf s" for i s using rep by (simp add: reports_ok_def)
  show ?thesis
    by (rule reports_cong [OF rep])
      (use False can w in \<open>auto simp: main_step_def split: main_pc.splits if_splits\<close>)
qed

lemma reports_stats:
  assumes rep: "reports_ok a" and can: "app_can Stats_next a"
  shows "reports_ok (app_stats_thread a)"
proof (cases "\<exists>s i. stats_pc a = St_collect i s \<and> \<not> i < length (th a)")
  case True
  then obtain i s where i: "stats_pc a = St_collect i s" "\<not> i < length (th a)" by blast
  have wf: "stats_wf s" using rep i(1) by (simp add: reports_ok_def)
  let ?d = "mgr_stats_diff (a_prev_stats a) s mgr_stats_zero"
  have l: "lines p (app_stats_thread a) = lines p a @ (if p = ''interval_total'' then [s]
      else if p = ''interval_diff'' then [?d] else [])" for p
    using i by (simp add: app_stats_thread_def lines_def Let_def)
  have "a_prev_stats (app_stats_thread a) = s" "stats_pc (app_stats_thread a) = St_check"
    "main_pc (app_stats_thread a) = main_pc a"
    using i by (simp_all add: app_stats_thread_def Let_def mgr_stats_copy_def)
  moreover have "main_pc a \<noteq> M_exit 0" using can by (auto simp: exited_def)
  ultimately show ?thesis using rep wf unfolding reports_ok_def l by (simp add: st.diffs_snoc)
next
  case False
  have w: "stats_pc a = St_collect i s \<Longrightarrow> stats_wf s" for i s using rep by (simp add: reports_ok_def)
  have "main_pc a \<noteq> M_exit 0" using can by (auto simp: exited_def)
  then show ?thesis
    by (intro reports_cong [OF rep])
      (use False can w st.wf_add st.wf_zero in \<open>auto simp: app_stats_thread_def split: stats_pc.splits if_splits\<close>)
qed

lemma reports_step:
  assumes rep: "reports_ok a" and can: "app_can x a" and x: "app_do ae x a = Some b"
  shows "reports_ok b"
proof (cases x)
  case Main_next
  then show ?thesis using reports_main [OF rep] can x by auto
next
  case Stats_next
  then show ?thesis using reports_stats [OF rep] can x by auto
next
  case (Thr_return i)
  have "lines p (upd_thr i f a) = lines p a" for p f by (simp add: lines_def)
  then show ?thesis using rep x Thr_return by (auto simp: reports_ok_def clt_mgr_thread_end_def)
qed (use rep x in \<open>auto simp: reports_ok_def lines_def bind_eq_Some_iff\<close>)

lemma app_reachable_reports:
  assumes ae: "aenv_ok ae" and a: "app_reachable ae opts a"
  shows "reports_ok a"
  using a
proof induction
  case (start a)
  then have "initial ae opts a"
    using app_start_result [OF ae, of opts] by (auto split: if_splits)
  then show ?case by (simp add: reports_ok_def initial_def lines_def)
next
  case (step a x a')
  show ?case by (rule reports_step [OF step.IH step.hyps(2,3)])
qed

section \<open>The workers together\<close>

lemma sum_le_share:
  fixes f :: "nat \<Rightarrow> int"
  assumes "\<And>i. i < n \<Longrightarrow> f i \<le> x div int n" "0 \<le> x" "0 < n"
  shows "(\<Sum>i < n. f i) \<le> x"
proof -
  have "(\<Sum>i < n. f i) \<le> int n * (x div int n)"
    using sum_bounded_above [of "{..<n}" f "x div int n"] assms(1) by simp
  also have "\<dots> \<le> x" using sdiv_share(1) [of x "int n"] assms(2,3) by (simp add: sdiv_nonneg)
  finally show ?thesis .
qed

lemma unat_int:
  assumes "0 \<le> x" "in_int x"
  shows "unat (word_of_int x :: u64) = nat x"
proof -
  obtain n where "x = int n" using assms(1) nonneg_int_cases by blast
  then show ?thesis using assms(2) by (simp add: in_int_def INT_MAX_def unat_of_nat)
qed

lemma init_stats: "stats (mgr (thr_init env g)) = mgr_stats_zero"
  by (simp add: thr_init_def clt_mgr_setup_def event_new_def alloc_def upd_mgr_def emit_def Let_def
      worker_zero_def clt_mgr_zero_def split: prod.splits option.splits if_splits)

lemma thread_limits:
  assumes ae: "aenv_ok ae" and inv: "app_inv ae opts a" and i: "i < length (th a)"
  shows "nconn (stats (mgr (t_world (th a ! i)))) \<le> max 0 (target_nconn (thread_cfg (a_cfg a)))"
    and "0 < target_total_nconn_count (thread_cfg (a_cfg a)) \<Longrightarrow>
      uint (conn_count (stats (mgr (t_world (th a ! i)))))
        \<le> target_total_nconn_count (thread_cfg (a_cfg a))"
proof -
  let ?g = "thread_cfg (a_cfg a)" and ?w = "t_world (th a ! i)"
  have c: "cfg_ok ?g" by (rule thread_cfg_spec(2) [OF app_invD(1,7) [OF inv]]) (rule i)
  have "nconn (stats (mgr ?w)) \<le> max 0 (target_nconn ?g) \<and> (0 < target_total_nconn_count ?g \<longrightarrow>
      conn_count (stats (mgr ?w)) \<le> word_of_int (target_total_nconn_count ?g))"
  proof (cases "t_pc (th a ! i) \<in> {Thr_none, Thr_created}")
    case True
    then have "stats (mgr ?w) = mgr_stats_zero"
      using app_invD(4) [OF inv i] by (auto simp: thr_ok_def init_stats)
    then show ?thesis by (simp add: mgr_stats_zero_def)
  next
    case False
    then have pc: "t_pc (th a ! i) \<in> {Thr_loop, Thr_ended}" by (cases "t_pc (th a ! i)") auto
    note O = worker_okD [OF thread_worker(4) [OF ae inv i pc]]
    have "target_nconn ((cfg (mgr ?w))\<lparr>ipv4_dst := ipv4_dst ?g\<rparr>) = target_nconn ?g"
      "target_total_nconn_count ((cfg (mgr ?w))\<lparr>ipv4_dst := ipv4_dst ?g\<rparr>)
         = target_total_nconn_count ?g" using O(5) by simp_all
    then show ?thesis using mgr_inv_parts(2) [OF O(1), unfolded counts_ok_def] by simp
  qed
  then show "nconn (stats (mgr ?w)) \<le> max 0 (target_nconn ?g)"
    and "0 < target_total_nconn_count ?g \<Longrightarrow>
      uint (conn_count (stats (mgr ?w))) \<le> target_total_nconn_count ?g"
    using c by (auto simp: word_le_nat_alt cfg_ok_def unat_int le_nat_iff)
qed

lemma sdiv_neg_range:
  fixes x n :: int
  assumes "x < 0" "0 < n" "in_int x"
  shows "c_int (x sdiv n) \<le> 0"
proof -
  have e: "x sdiv n = - (- x div n)" using assms by (simp add: signed_divide_int_def)
  have "0 \<le> - x div n" using assms by (simp add: pos_imp_zdiv_nonneg_iff)
  moreover from this have "- x div n \<le> n * (- x div n)" using assms(2) by (simp add: mult_le_cancel_right1)
  moreover have "n * (- x div n) \<le> - x"
    using mult_div_mod_eq [of n "- x"] pos_mod_sign [OF assms(2), of "- x"] by linarith
  ultimately have "in_int (x sdiv n)" using assms(3) by (simp add: e in_int_def INT_MAX_def INT_MIN_def)
  then show ?thesis using \<open>0 \<le> - x div n\<close> by (simp add: c_int_id e)
qed

lemma ended_stats:
  assumes "aenv_ok ae" "app_inv ae opts a" "i < length (th a)" "t_pc (th a ! i) = Thr_ended"
  shows "prev_stats (t_world (th a ! i)) = stats (mgr (t_world (th a ! i)))"
proof -
  have W: "worker_ok (ae_env ae i) (thread_cfg (a_cfg a)) (t_world (th a ! i))"
    by (rule thread_worker(4) [OF assms(1-3)]) (use assms(4) in simp)
  have "loop_idle (calls (t_world (th a ! i)))"
    using app_invD(4) [OF assms(2,3)] assms(4) by (simp add: thr_ok_def)
  then show ?thesis
    using idle_completed [OF W] worker_okD(4) [OF W] by (auto simp: ticking_def loop_idle_iff)
qed

section \<open>The last steps\<close>

lemma stats_ends:
  assumes "\<not> exited a" "stats_thread_run a = 0" "stats_pc a \<noteq> St_none"
  shows "\<exists>b. leads_to ae a b \<and> stats_pc b = St_ended \<and> main_pc b = main_pc a"
proof -
  have check: "\<exists>b. leads_to ae a b \<and> stats_pc b = St_ended \<and> main_pc b = main_pc a"
    if "\<not> exited a" "stats_thread_run a = 0" "stats_pc a = St_check" for a
    using leads_to_step [of Stats_next a ae] that
    by (intro exI [of _ "app_stats_thread a"]) (simp add: app_stats_thread_def)
  have collect: "\<exists>b. leads_to ae a b \<and> stats_pc b = St_ended \<and> main_pc b = main_pc a"
    if c: "\<not> exited a" "stats_thread_run a = 0" "stats_pc a = St_collect i s" for a i s
  proof -
    obtain b where "leads_to ae a b" "stats_pc b = St_check" "main_pc b = main_pc a"
      "stats_thread_run b = 0"
      using collect_run [OF c(1,3), of ae] unfolding leads_to_def c(2) by blast
    then show ?thesis using check [of b] c(1) leads_to_trans by (fastforce simp: exited_def)
  qed
  show ?thesis
  proof (cases "stats_pc a")
    case St_sleep
    let ?a = "app_stats_thread a"
    have "leads_to ae a ?a" using leads_to_step [of Stats_next a ae] St_sleep assms(1) by simp
    moreover have "\<exists>b. leads_to ae ?a b \<and> stats_pc b = St_ended \<and> main_pc b = main_pc ?a"
      by (rule collect) (use assms(1,2) St_sleep in \<open>simp_all add: app_stats_thread_def exited_def\<close>)
    moreover have "main_pc ?a = main_pc a" using St_sleep by (simp add: app_stats_thread_def)
    ultimately show ?thesis using leads_to_trans by fastforce
  next
    case St_ended
    then show ?thesis using leads_to_refl by blast
  qed (use assms check collect in auto)
qed

lemma wait_exits:
  assumes "app_inv ae opts a" "main_pc a = M_wait"
  shows "\<exists>b. leads_to ae a b \<and> main_pc b = M_exit 0"
proof -
  have "stats_thread_run a = 0" "stats_pc a \<noteq> St_none" "\<not> exited a"
    using app_invD(5) [OF assms(1)] assms(2) by (simp_all add: main_ok_def exited_def)
  then obtain b where b: "leads_to ae a b" "stats_pc b = St_ended" "main_pc b = M_wait"
    using stats_ends assms(2) by metis
  then have "leads_to ae b (main_step ae b)" by (intro leads_to_step [of Main_next]) simp_all
  moreover have "main_pc (main_step ae b) = M_exit 0" using b(3) by (simp add: main_step_def Let_def)
  ultimately show ?thesis using leads_to_trans [OF b(1)] by blast
qed

lemma join_waits:
  assumes ae: "aenv_ok ae" and inv: "app_inv ae opts a" and pc: "main_pc a = M_join i"
    and per: "0 \<le> running_period_sec (a_cfg a)"
  shows "\<exists>b. leads_to ae a b \<and> app_inv ae opts b \<and> main_pc b = M_wait \<and> stats_pc b = stats_pc a"
proof -
  have "\<forall>j < length (th a). t_pc (th a ! j) \<noteq> Thr_none" "\<not> exited a"
    using app_invD(5) [OF inv] pc by (simp_all add: main_ok_def exited_def)
  then obtain b where b: "leads_to ae a b" "app_inv ae opts b" "main_pc b = M_join i"
    "stats_pc b = stats_pc a" "\<forall>j < length (th b). t_pc (th b ! j) = Thr_ended"
    using workers_end [OF ae inv _ per, of "length (th a)"] pc by auto
  obtain c where "leads_to ae b c" "app_inv ae opts c" "main_pc c = M_wait" "stats_pc c = stats_pc b"
    using joins_all [OF b(2,3,5)] by blast
  then show ?thesis using leads_to_trans [OF b(1)] b(4) by auto
qed

lemma can_exit:
  assumes ae: "aenv_ok ae" "ae_create ae = (\<lambda>_. True)" "ae_create_stats ae"
    and inv: "app_inv ae opts a" and ex: "\<not> exited a" and per: "0 \<le> running_period_sec (a_cfg a)"
  shows "\<exists>b. leads_to ae a b \<and> main_pc b = M_exit 0"
proof -
  have join: "\<exists>b. leads_to ae a b \<and> main_pc b = M_exit 0"
    if "app_inv ae opts a" "main_pc a = M_join i" "0 \<le> running_period_sec (a_cfg a)" for a i
    using join_waits [OF ae(1) that] wait_exits leads_to_trans by blast
  show ?thesis
  proof (cases "main_pc a")
    case (M_create i)
    obtain b where "leads_to ae a b" "app_inv ae opts b" "main_pc b = M_join 0" "a_cfg b = a_cfg a"
      using creates_all [OF ae inv M_create] by blast
    then show ?thesis using join [of b 0] per leads_to_trans by fastforce
  next
    case (M_join i)
    then show ?thesis using join [OF inv] per by blast
  next
    case M_wait
    then show ?thesis by (rule wait_exits [OF inv])
  qed (use ex in \<open>simp add: exited_def\<close>)
qed

end
