(* ===== verification/Worker_Example.thy ===== *)
theory Worker_Example
  imports Worker_Runs
begin

text \<open>
  A concrete worker, for the instances of the general theorems: one connection
  at a time to one address, two requests on each connection, a total of three
  connections, every allocation succeeding.
\<close>

definition demo_env :: env where
  "demo_env = \<lparr>env_ok = (\<lambda>_ _. True), env_fini_hook = (\<lambda>_. True)\<rparr>"

definition demo_cfg :: mgr_config where
  "demo_cfg = mgr_config_zero\<lparr>num_threads := 1, burst_conn := 4, target_nconn := 1,
     target_request_rate := -1, target_request_count := 2, target_global_request_count := -1,
     target_total_nconn_count := 3, running_period_sec := 5, waiting_period_sec := 5,
     ipv4_dst := \<lparr>ipv4 = Some ''10.0.0.1'' # replicate 15 None, arr_n = 1, arr_cur = 0\<rparr>,
     port := 80, uri := Some ''/'', http_keepalive := 1\<rparr>"

definition demo_run :: "input list \<Rightarrow> world option" where
  "demo_run is = do { w \<leftarrow> worker_start demo_env demo_cfg; deliver_all demo_env is w }"

lemmas start_simps = worker_start_def clt_mgr_setup_def event_new_def alloc_def Let_def
  worker_zero_def clt_mgr_zero_def clt_mgr_start_def clt_mgr_set_running_timer_def
  clt_mgr_state_change_def upd_mgr_def emit_def demo_env_def demo_cfg_def mgr_config_zero_def
  cfg_ipv4_array_init_def mgr_stats_zero_def

lemmas run_simps = start_simps demo_run_def fire_def clt_mgr_timer_def
  clt_mgr_timer_state_running_def create_loop.simps clt_mgr_conn_try_create_def
  clt_mgr_check_create_conn_def clt_mgr_reqrate_pacer_check_def clt_mgr_reqrate_pacer_inc_def
  clt_mgr_conn_create_def clt_conn_create_def set_conn_def set_creq_def clt_mgr_conn_zero_def
  client_req_zero_def cfg_ipv4_array_get_next_def array_at_def upd_stats_def c_int_def
  clt_mgr_conn_start_http_req_def clt_mgr_check_finished_def clt_mgr_state_set_waiting_def
  clt_mgr_waiting_schedule_def clt_mgr_conn_http_req_event_def clt_req_create_def
  clt_req_headers_def clt_req_hooks_def signed_modulo_int_def

lemma demo_ok: "event_new_ok demo_env" "cfg_ok demo_cfg"
  by (simp_all add: event_new_ok_def demo_env_def demo_cfg_def cfg_ok_def array_wf_def addrs_def
      mgr_config_zero_def in_int_def INT_MIN_def INT_MAX_def)

lemma demo_reachable: "demo_run is = Some w \<Longrightarrow> reachable demo_env demo_cfg w"
  unfolding demo_run_def bind_eq_Some_iff using reachable.start deliver_all_reachable by blast

text \<open>A connection is made, and its first request is under way.\<close>

lemma demo_busy:
  "\<exists>w m. demo_run [Fire T_timer, Fire (Ev_http_req 5)] = Some w \<and> conns w 5 = Some m
     \<and> cur_req_count m = 1 \<and> c_req m = Some 6 \<and> con_live (calls w) 9 \<and> req_live (calls w) 14
     \<and> enabled (calls w) (Request_done 14 200) \<and> conn_count (stats (mgr w)) = 1
     \<and> mgr_state (mgr w) = CLT_MGR_STATE_RUNNING \<and> length (mgr_conn_list (mgr w)) = 1"
  by (simp add: run_simps word_le_nat_alt)

lemmas notify_simps = clt_call_notify_def clt_mgr_conn_notify_cb_def mgr_statustype_update_def
  clt_conn_timeout_stop_def clt_conn_timeout_rearm_def clt_req_destroy_def
  clt_mgr_conn_check_create_http_request_def clt_mgr_check_create_http_request_def
  clt_mgr_conn_cancel_http_req_def clt_mgr_conn_destroy_def

text \<open>The first request is served, and a second one is queued on the connection.\<close>

lemma demo_served:
  "\<exists>w m. demo_run [Fire T_timer, Fire (Ev_http_req 5), Request_done 14 200] = Some w
     \<and> conns w 5 = Some m \<and> pending_http_req m = 1 \<and> is_dead m = 0
     \<and> req_count_ok (stats (mgr w)) = 1 \<and> \<not> req_live (calls w) 14"
  by (simp add: run_simps notify_simps clt_req_cb_def word_le_nat_alt)

text \<open>The first request gets a response but no end: the connection is given up.\<close>

lemma demo_timeout:
  "\<exists>w m. demo_run [Fire T_timer, Fire (Ev_http_req 5), Headers_start_hook 14, Fire (Ev_timeout 6)]
       = Some w
     \<and> conns w 5 = Some m \<and> is_dead m \<noteq> 0 \<and> req_count_timeout (stats (mgr w)) = 1"
  by (simp add: run_simps notify_simps clt_upstream_headers_start_def clt_conn_timeout_def
      word_le_nat_alt)

text \<open>The worker can run to its end.\<close>

lemma demo_done:
  "\<exists>w. reachable demo_env demo_cfg w \<and> mgr_state (mgr w) = CLT_MGR_STATE_COMPLETED
     \<and> \<not> ev_pending (calls w) T_stat"
proof -
  obtain w where w: "worker_start demo_env demo_cfg = Some w" "worker_ok demo_env demo_cfg w"
    using worker_start_ok [OF demo_ok] by blast
  have "0 \<le> running_period_sec demo_cfg" by (simp add: demo_cfg_def)
  then have "done_within demo_env (length (mgr_conn_list (mgr w)) + 5) w"
    using worker_completes [OF w(2)] by blast
  then show ?thesis
    unfolding done_within_def using w(1) reachable.start deliver_all_reachable by blast
qed

end
