(* ===== verification/App_Properties.thy ===== *)
theory App_Properties
  imports App_Ends Worker_Example
begin

text \<open>
  The properties of the client process, with a process of two workers as the
  instance.
\<close>

definition demo_aenv :: aenv where
  "demo_aenv = \<lparr>ae_strdup = (\<lambda>_. True), ae_copy = (\<lambda>_ _. True), ae_calloc_th = True,
     ae_calloc_m = (\<lambda>_. True), ae_create = (\<lambda>_. True), ae_create_stats = True,
     ae_env = (\<lambda>_. demo_env)\<rparr>"

definition demo_opts :: "(opt \<times> string) list" where
  "demo_opts = [(OPT_HOST_IP, ''10.0.0.1''), (OPT_PORT, ''80''), (OPT_URI, ''/''),
     (OPT_NUMBER_THREADS, ''2''), (OPT_TARGET_NCONN, ''5''), (OPT_TARGET_TOTAL_NCONN_COUNT, ''9'')]"

lemma demo_aenv_ok: "aenv_ok demo_aenv"
  using demo_ok(1) by (simp add: aenv_ok_def demo_aenv_def)

lemmas number_simps = atoi_def strtol_def is_space_def digits_val_def digit_val_def is_digit_def
  c_int_def

lemma demo_usable: "usable demo_opts" "wanted_threads demo_opts = 2" "memory_ok demo_aenv 2"
  by (simp_all add: usable_def wanted_threads_def memory_ok_def demo_opts_def demo_aenv_def
      accepted_def list_all_iff number_simps)

lemma demo_app:
  obtains a where "app_start demo_aenv demo_opts = Some (Inr a)" "initial demo_aenv demo_opts a"
    "app_reachable demo_aenv demo_opts a"
  using app_start_result [OF demo_aenv_ok, of demo_opts] demo_usable app_reachable.start by auto

lemma demo_fields:
  assumes "initial demo_aenv demo_opts a"
  shows "running_period_sec (a_cfg a) = 30" "target_nconn (a_cfg a) = 5"
    "target_total_nconn_count (a_cfg a) = 9" "num_threads (a_cfg a) = 2" "length (th a) = 2"
  using assms
  by (simp_all add: initial_def opts_applied_def demo_opts_def mgr_config_defaults_def number_simps)

lemma demo_length:
  assumes "app_reachable demo_aenv demo_opts a"
  shows "length (th a) = 2"
proof -
  note D = app_invD [OF app_reachable_inv [OF demo_aenv_ok assms]]
  show ?thesis using D(3) fields_usable(4) [OF D(2)] demo_usable(2) by simp
qed

lemma demo_joining:
  obtains a where "app_reachable demo_aenv demo_opts a" "main_pc a = M_join 0"
    "0 \<le> running_period_sec (a_cfg a)" "stats_pc a = St_check"
proof -
  obtain a where a: "initial demo_aenv demo_opts a" "app_reachable demo_aenv demo_opts a"
    by (rule demo_app)
  have c: "ae_create demo_aenv = (\<lambda>_. True)" "ae_create_stats demo_aenv" "main_pc a = M_create 0"
    using a(1) by (simp_all add: demo_aenv_def initial_def)
  obtain b where b: "leads_to demo_aenv a b" "main_pc b = M_join 0" "a_cfg b = a_cfg a"
    "stats_pc b = St_check"
    using creates_all [OF demo_aenv_ok c(1,2) initial_inv [OF a(1)] c(3)] by blast
  show thesis
    by (rule that [OF leads_to_reachable [OF b(1) a(2)] b(2) _ b(4)]) (use b(3) demo_fields [OF a(1)] in simp)
qed

lemma demo_waiting:
  assumes "s \<in> {St_check, St_sleep}"
  obtains a where "app_reachable demo_aenv demo_opts a" "main_pc a = M_wait" "stats_pc a = s"
    "length (th a) = 2"
proof -
  obtain a where a: "app_reachable demo_aenv demo_opts a" "main_pc a = M_join 0"
    "0 \<le> running_period_sec (a_cfg a)" "stats_pc a = St_check" by (rule demo_joining)
  note I = app_reachable_inv [OF demo_aenv_ok]
  have run: "stats_thread_run a = 1" using app_invD(5) [OF I [OF a(1)]] a(2) by (simp add: main_ok_def)
  let ?b = "app_stats_thread a"
  have "leads_to demo_aenv a ?b"
    by (rule leads_to_step [of Stats_next]) (use a in \<open>simp_all add: exited_def\<close>)
  then have b: "app_reachable demo_aenv demo_opts ?b" using leads_to_reachable a(1) by blast
  have "\<exists>c. app_reachable demo_aenv demo_opts c \<and> main_pc c = M_join 0
      \<and> 0 \<le> running_period_sec (a_cfg c) \<and> stats_pc c = s"
    using assms a b run by (auto simp: app_stats_thread_def)
  then obtain c where c: "app_reachable demo_aenv demo_opts c" "main_pc c = M_join 0"
    "0 \<le> running_period_sec (a_cfg c)" "stats_pc c = s" by blast
  obtain d where d: "leads_to demo_aenv c d" "main_pc d = M_wait" "stats_pc d = s"
    using join_waits [OF demo_aenv_ok I [OF c(1)] c(2,3)] c(4) by blast
  show thesis using that leads_to_reachable [OF d(1) c(1)] d(2,3) demo_length by blast
qed

lemma demo_exit:
  obtains a where "app_reachable demo_aenv demo_opts a" "main_pc a = M_exit 0" "length (th a) = 2"
proof -
  obtain a where a: "app_reachable demo_aenv demo_opts a" "main_pc a = M_wait"
    using demo_waiting [of St_sleep] by blast
  obtain b where b: "leads_to demo_aenv a b" "main_pc b = M_exit 0"
    using wait_exits [OF app_reachable_inv [OF demo_aenv_ok a(1)] a(2)] by blast
  show thesis using that leads_to_reachable [OF b(1) a(1)] b(2) demo_length by blast
qed

section \<open>Safety\<close>



text \<open>C5: a worker of the process is a worker: once it has started, its state is one the worker
  model reaches with its share of the configuration, whatever the other threads did in
  between; so everything proved of a worker holds of every thread.\<close>

theorem client_workers_refine:
  assumes "aenv_ok ae" "app_reachable ae opts a" "i < length (th a)"
    "t_pc (th a ! i) = Thr_loop \<or> t_pc (th a ! i) = Thr_ended"
  shows "reachable (ae_env ae i) (thread_cfg (a_cfg a)) (t_world (th a ! i))
    \<and> cfg_ok (thread_cfg (a_cfg a)) \<and> t_tid (th a ! i) = int i"
proof -
  have inv: "app_inv ae opts a" by (rule app_reachable_inv [OF assms(1,2)])
  then show ?thesis
    using thread_worker(2,3) [OF assms(1) inv assms(3)] assms(4) app_invD(4) [OF inv assms(3)]
    by (auto simp: thr_ok_def)
qed

theorem client_workers_refine_witness:
  "\<exists>a. app_reachable demo_aenv demo_opts a \<and> t_pc (th a ! 1) = Thr_ended
     \<and> reachable demo_env (thread_cfg (a_cfg a)) (t_world (th a ! 1))"
proof -
  obtain b where b: "app_reachable demo_aenv demo_opts b" "main_pc b = M_exit 0" "length (th b) = 2"
    by (rule demo_exit)
  note D = app_invD [OF app_reachable_inv [OF demo_aenv_ok b(1)]]
  have n: "1 < length (th b)" using b(3) by simp
  then have e: "t_pc (th b ! 1) = Thr_ended" using D(5) b(2) by (simp add: main_ok_def)
  then show ?thesis using client_workers_refine [OF demo_aenv_ok b(1) n] b(1)
    by (auto simp: demo_aenv_def)
qed

section \<open>Start and end\<close>

text \<open>C25: how \<open>main\<close> starts: status 128 exactly for a command line it cannot use (an option it
  rejects, more than sixteen addresses, or no address, URI or port), status 127 exactly
  when the number of threads is negative or memory is short, and otherwise every worker
  is set up with its share of the configuration.\<close>

theorem client_start_status:
  assumes "aenv_ok ae"
  shows "(app_start ae opts = Some (Inl 128) \<longleftrightarrow> \<not> usable opts)
    \<and> (app_start ae opts = Some (Inl 127) \<longleftrightarrow> usable opts
        \<and> (wanted_threads opts < 0 \<or> \<not> memory_ok ae (nat (wanted_threads opts))))
    \<and> (usable opts \<and> 0 \<le> wanted_threads opts \<and> memory_ok ae (nat (wanted_threads opts)) \<longrightarrow>
        (\<exists>a. app_start ae opts = Some (Inr a) \<and> length (th a) = nat (wanted_threads opts)
           \<and> opts_applied (mgr_config_defaults mgr_config_zero) opts (a_cfg a)
           \<and> (\<forall>i < length (th a). t_tid (th a ! i) = int i
                \<and> cfg (mgr (t_world (th a ! i))) = thread_cfg (a_cfg a))))"
proof -
  have "length (th a) = nat (wanted_threads opts)
      \<and> opts_applied (mgr_config_defaults mgr_config_zero) opts (a_cfg a)
      \<and> (\<forall>i < length (th a). t_tid (th a ! i) = int i
           \<and> cfg (mgr (t_world (th a ! i))) = thread_cfg (a_cfg a))" if "initial ae opts a" for a
    using that fields_usable(4) [of opts "a_cfg a"]
    by (auto simp: initial_def thr_init_def upd_mgr_def)
  then show ?thesis using app_start_result [OF assms, of opts] by (auto split: if_splits)
qed

theorem client_start_status_witness:
  "app_start demo_aenv [(OPT_TARGET_GLOBAL_REQUEST_COUNT, ''5'')] = Some (Inl 128)
    \<and> (\<exists>a. app_start demo_aenv demo_opts = Some (Inr a) \<and> length (th a) = 2)"
  using client_start_status [OF demo_aenv_ok, of "[(OPT_TARGET_GLOBAL_REQUEST_COUNT, ''5'')]"]
    client_start_status [OF demo_aenv_ok, of demo_opts] demo_usable
  by (auto simp: usable_def accepted_def)



text \<open>C22: a process that ends with status 0 has waited for every thread, and has released what
  it set up: the calls that create and destroy the mutex, the evhtp object and the event
  base of every thread are exactly these, the evhtp object before its event base.\<close>

theorem client_exit_clean:
  assumes "aenv_ok ae" "app_reachable ae opts a" "main_pc a = M_exit 0"
  shows "stats_pc a = St_ended
    \<and> (\<forall>i < length (th a). t_pc (th a ! i) = Thr_ended \<and> creqs (t_world (th a ! i)) = Map.empty
         \<and> conns (t_world (th a ! i)) = Map.empty)
    \<and> rev (a_calls a)
      = concat (map (\<lambda>i. [Event_base_new (int i), Evhtp_new (int i), Mutex_init (int i)])
          [0..<length (th a)])
        @ concat (map (\<lambda>i. [Mutex_destroy (int i), Evhtp_free (int i), Event_base_free (int i)])
          [0..<length (th a)])"
proof -
  note inv = app_reachable_inv [OF assms(1,2)]
  note D = app_invD [OF inv]
  have e: "stats_pc a = St_ended" "\<forall>i < length (th a). t_pc (th a ! i) = Thr_ended"
    using D(5) assms(3) by (simp_all add: main_ok_def)
  have "creqs (t_world (th a ! i)) = Map.empty \<and> conns (t_world (th a ! i)) = Map.empty"
    if i: "i < length (th a)" for i
  proof -
    have W: "worker_ok (ae_env ae i) (thread_cfg (a_cfg a)) (t_world (th a ! i))"
      by (rule thread_worker(4) [OF assms(1) inv i]) (use e(2) i in simp)
    have "loop_idle (calls (t_world (th a ! i)))"
      using D(4) [OF i] e(2) i by (auto simp: thr_ok_def)
    then have "mgr_state (mgr (t_world (th a ! i))) = CLT_MGR_STATE_COMPLETED"
      using idle_completed [OF W] by (simp add: loop_idle_iff)
    then have c: "conns (t_world (th a ! i)) = Map.empty"
      using worker_okD(3) [OF W] by (simp add: phase_core_def Let_def)
    then show ?thesis using no_conns(1) [OF worker_okD(1,2) [OF W]] by simp
  qed
  moreover have "rev \<circ> freed_calls
      = (\<lambda>i. [Mutex_destroy (int i), Evhtp_free (int i), Event_base_free (int i)])"
    "rev \<circ> setup_calls = (\<lambda>i. [Event_base_new (int i), Evhtp_new (int i), Mutex_init (int i)])"
    by (simp_all add: fun_eq_iff freed_calls_def setup_calls_def)
  ultimately show ?thesis
    using e D(6) assms(3) by (simp add: calls_ok_def rev_concat rev_map)
qed

theorem client_exit_clean_witness:
  "\<exists>a. app_reachable demo_aenv demo_opts a \<and> main_pc a = M_exit 0 \<and> stats_pc a = St_ended
     \<and> length (a_calls a) = 12"
proof -
  obtain b where b: "app_reachable demo_aenv demo_opts b" "main_pc b = M_exit 0" "length (th b) = 2"
    by (rule demo_exit)
  have "length (rev (a_calls b)) = 12"
    using client_exit_clean [OF demo_aenv_ok b(1,2)] b(3) by (simp add: upt_rec)
  then have "length (a_calls b) = 12" by simp
  then show ?thesis using client_exit_clean [OF demo_aenv_ok b(1,2)] b by blast
qed

section \<open>Limits\<close>



section \<open>Reports\<close>

text \<open>C23: the interval differences the reporting thread prints add up to the interval total it
  printed last, also when counters wrap, and the total printed at the end is that one.\<close>

theorem client_reports_add_up:
  assumes "aenv_ok ae" "app_reachable ae opts a"
  shows "foldr mgr_stats_add (lines ''interval_diff'' a) mgr_stats_zero
      = last (mgr_stats_zero # lines ''interval_total'' a)
    \<and> length (lines ''interval_diff'' a) = length (lines ''interval_total'' a)
    \<and> (main_pc a = M_exit 0 \<longrightarrow>
         lines ''run_total'' a = [last (mgr_stats_zero # lines ''interval_total'' a)])"
proof -
  note R = app_reachable_reports [OF assms, unfolded reports_ok_def]
  let ?t = "lines ''interval_total'' a"
  have len: "length (st.diffs p xs) = length xs" for p xs
    by (induction xs arbitrary: p) simp_all
  have "mgr_stats_add (st.total (st.diffs mgr_stats_zero ?t)) mgr_stats_zero = last (mgr_stats_zero # ?t)"
    using R st.telescope st.wf_zero by blast
  then have "st.total (st.diffs mgr_stats_zero ?t) = last (mgr_stats_zero # ?t)"
    using st.add_zero [OF st.wf_total] by simp
  then show ?thesis using R len by (simp add: st.total_def)
qed

theorem client_reports_add_up_witness:
  "\<exists>a. app_reachable demo_aenv demo_opts a \<and> main_pc a = M_exit 0
     \<and> lines ''run_total'' a = [foldr mgr_stats_add (lines ''interval_diff'' a) mgr_stats_zero]"
proof -
  obtain b where "app_reachable demo_aenv demo_opts b" "main_pc b = M_exit 0"
    by (rule demo_exit)
  then show ?thesis using client_reports_add_up [OF demo_aenv_ok] by fastforce
qed





end
