(* ===== verification/Server.thy ===== *)
theory Server
  imports Numbers Library_Calls
begin

text \<open>
  \<open>srv/http.c\<close>: the HTTP server. A request is answered by a response object
  (\<open>struct req\<close>, here \<open>http_req\<close>) that writes one chunk at a time whenever the
  connection has made progress. The object is reference counted: libevhtp holds
  one reference through the hooks of the request, and every chunk of a sized
  response holds one because the chunk points into the object's buffer.

  As on the client side the calls to libevhtp are recorded, newest first. A
  chunk is recorded with its bytes and the object whose buffer it points into;
  \<open>Chunk_released\<close> is the library's call of \<open>req_evbuf_free\<close>. The fields a
  fresh block has before they are assigned come from \<open>senv_junk\<close>.
\<close>

section \<open>Data\<close>

datatype req_type = REQ_TYPE_NONE | REQ_TYPE_LINE | REQ_TYPE_SIZE

datatype evhtp_res = EVHTP_RES_OK | EVHTP_RES_ERROR

record http_req =
  h_req :: "addr option"
  h_type :: req_type
  reply_size :: u64
  current_ofs :: u64
  cur_count :: int
  max_count :: int
  buf :: "string option"
  buf_size :: u64
  refcnt :: int

datatype srvcall =
    Set_hook addr hook addr
  | Unset_all_hooks addr
  | Set_write_hook addr addr
  | Unset_write_hook addr
  | Reply_chunk_start addr evhtp_res
  | Reply_chunk addr string "addr option"
  | Reply_chunk_end addr
  | Reply addr evhtp_res
  | Chunk_released addr

record srv =
  reqs :: "addr \<Rightarrow> http_req option"
  scalls :: "srvcall list"
  s_next :: addr

record senv =
  senv_ok :: "nat \<Rightarrow> bool"
  senv_junk :: "nat \<Rightarrow> http_req"
  senv_bytes :: "nat \<Rightarrow> string"
  senv_conn :: "addr \<Rightarrow> addr"

definition semit :: "srvcall \<Rightarrow> srv \<Rightarrow> srv" where
  "semit c w = w\<lparr>scalls := c # scalls w\<rparr>"

definition set_req :: "addr \<Rightarrow> http_req \<Rightarrow> srv \<Rightarrow> srv" where
  "set_req r x w = w\<lparr>reqs := (reqs w)(r \<mapsto> x)\<rparr>"

definition salloc :: "senv \<Rightarrow> srv \<Rightarrow> addr option \<times> srv" where
  "salloc env w = (if senv_ok env (s_next w) then Some (s_next w) else None,
     w\<lparr>s_next := Suc (s_next w)\<rparr>)"

section \<open>The response object\<close>

definition req_create :: "senv \<Rightarrow> addr \<Rightarrow> srv \<Rightarrow> addr option \<times> srv" where
  "req_create env q w =
     (case salloc env w of
        (None, w) \<Rightarrow> (None, w)
      | (Some r, w) \<Rightarrow>
          (Some r, set_req r ((senv_junk env r)\<lparr>h_type := REQ_TYPE_NONE, h_req := Some q,
                                refcnt := 1, buf := None\<rparr>) w))"

definition req_free :: "addr \<Rightarrow> srv \<Rightarrow> srv option" where
  "req_free r w =
     do { x \<leftarrow> reqs w r;
          let x = x\<lparr>refcnt := c_int (refcnt x - 1)\<rparr>;
          if refcnt x > 0 then Some (set_req r x w)
          else Some (w\<lparr>reqs := (reqs w)(r := None)\<rparr>) }"

definition req_set_type_line :: "addr \<Rightarrow> int \<Rightarrow> srv \<Rightarrow> (int \<times> srv) option" where
  "req_set_type_line r n w =
     do { x \<leftarrow> reqs w r;
          Some (0, set_req r (x\<lparr>h_type := REQ_TYPE_LINE, max_count := n, cur_count := 0\<rparr>) w) }"

function fill_loop :: "nat \<Rightarrow> nat \<Rightarrow> nat \<Rightarrow> string \<Rightarrow> string" where
  \<comment> \<open>the \<open>for\<close> loop of \<open>req_set_type_buf\<close> over \<open>i\<close> and \<open>j\<close>, up to \<open>n\<close>\<close>
  "fill_loop n i j b =
     (if i < n then
        (if i mod 41 = 0 then fill_loop n (i + 1) j (b[i := CHR 0x0A])
         else fill_loop n (i + 1) (j + 1) (b[i := char_of (65 + j mod 26)]))
      else b)"
  by pat_completeness auto
termination
  by (relation "measure (\<lambda>(n, i, j, b). n - i)") auto

declare fill_loop.simps [simp del]

definition fill_buf :: "nat \<Rightarrow> string \<Rightarrow> string" where
  \<comment> \<open>the loop and the assignment after it, for a buffer of \<open>n\<close> bytes\<close>
  "fill_buf n b = (fill_loop (n - 1) 0 0 b)[n - 1 := CHR 0x0A]"

definition BUF_SIZE :: nat where "BUF_SIZE = 65536"

definition malloc_bytes :: "senv \<Rightarrow> nat \<Rightarrow> nat \<Rightarrow> string" where
  \<comment> \<open>\<open>n\<close> bytes of unspecified contents\<close>
  "malloc_bytes env a n = take n (senv_bytes env a) @ replicate (n - length (senv_bytes env a)) CHR 0x00"

definition req_set_type_buf :: "senv \<Rightarrow> addr \<Rightarrow> u64 \<Rightarrow> srv \<Rightarrow> (int \<times> srv) option" where
  "req_set_type_buf env r n w =
     do { x \<leftarrow> reqs w r;
          (case salloc env w of
             (None, w) \<Rightarrow> Some (-1, set_req r (x\<lparr>buf := None\<rparr>) w)
           | (Some a, w) \<Rightarrow>
               Some (0, set_req r (x\<lparr>buf := Some (fill_buf BUF_SIZE (malloc_bytes env a BUF_SIZE)),
                 buf_size := 65536, h_type := REQ_TYPE_SIZE, reply_size := n,
                 current_ofs := 0\<rparr>) w)) }"

section \<open>Writing\<close>

definition line_text :: string where
  "line_text = ''foobar'' @ [CHR 0x0D, CHR 0x0A]"

definition req_write_line :: "senv \<Rightarrow> addr \<Rightarrow> srv \<Rightarrow> (evhtp_res \<times> srv) option" where
  "req_write_line env r w =
     do { x \<leftarrow> reqs w r;
          q \<leftarrow> h_req x;
          let w = semit (Reply_chunk q line_text None) w;
          let x = x\<lparr>cur_count := c_int (cur_count x + 1)\<rparr>;
          let w = set_req r x w;
          let w = (if cur_count x \<ge> max_count x
                   then semit (Reply_chunk_end q) (semit (Unset_write_hook (senv_conn env q)) w)
                   else w);
          Some (EVHTP_RES_OK, w) }"

definition req_evbuf_free :: "addr \<Rightarrow> srv \<Rightarrow> srv option" where
  "req_evbuf_free r w = req_free r w"

definition req_write_buf :: "senv \<Rightarrow> addr \<Rightarrow> srv \<Rightarrow> (evhtp_res \<times> srv) option" where
  "req_write_buf env r w =
     do { x \<leftarrow> reqs w r;
          let n = reply_size x - current_ofs x;
          let write_size = (if n > buf_size x then buf_size x else n);
          b \<leftarrow> buf x;
          if unat write_size > length b then None else
          do { q \<leftarrow> h_req x;
               let x = x\<lparr>refcnt := c_int (refcnt x + 1)\<rparr>;
               let w = semit (Reply_chunk q (take (unat write_size) b) (Some r)) w;
               let x = x\<lparr>current_ofs := current_ofs x + write_size\<rparr>;
               let w = set_req r x w;
               let w = (if current_ofs x \<ge> reply_size x
                        then semit (Reply_chunk_end q) (semit (Unset_write_hook (senv_conn env q)) w)
                        else w);
               Some (EVHTP_RES_OK, w) }}"

section \<open>Hooks\<close>

definition send_upstream_new_chunk :: "addr \<Rightarrow> srv \<Rightarrow> (evhtp_res \<times> srv) option" where
  "send_upstream_new_chunk r w = Some (EVHTP_RES_OK, w)"

definition send_upstream_chunk_done :: "addr \<Rightarrow> srv \<Rightarrow> (evhtp_res \<times> srv) option" where
  "send_upstream_chunk_done r w = Some (EVHTP_RES_OK, w)"

definition send_upstream_chunks_done :: "addr \<Rightarrow> srv \<Rightarrow> (evhtp_res \<times> srv) option" where
  "send_upstream_chunks_done r w = Some (EVHTP_RES_OK, w)"

definition send_upstream_error :: "addr \<Rightarrow> addr \<Rightarrow> srv \<Rightarrow> (evhtp_res \<times> srv) option" where
  "send_upstream_error q r w =
     do { let w = semit (Unset_all_hooks q) w;
          x \<leftarrow> reqs w r;
          let w = set_req r (x\<lparr>h_req := None\<rparr>) w;
          w \<leftarrow> req_free r w;
          Some (EVHTP_RES_OK, w) }"

definition send_upstream_on_write :: "senv \<Rightarrow> addr \<Rightarrow> srv \<Rightarrow> (evhtp_res \<times> srv) option" where
  "send_upstream_on_write env r w =
     do { x \<leftarrow> reqs w r;
          (case h_type x of
             REQ_TYPE_LINE \<Rightarrow> req_write_line env r w
           | REQ_TYPE_SIZE \<Rightarrow> req_write_buf env r w
           | _ \<Rightarrow> Some (EVHTP_RES_ERROR, w)) }"

definition send_upstream_fini :: "addr \<Rightarrow> srv \<Rightarrow> (evhtp_res \<times> srv) option" where
  "send_upstream_fini r w =
     do { x \<leftarrow> reqs w r;
          q \<leftarrow> h_req x;
          let w = semit (Unset_all_hooks q) w;
          let w = set_req r (x\<lparr>h_req := None\<rparr>) w;
          w \<leftarrow> req_free r w;
          Some (EVHTP_RES_OK, w) }"

definition response_hooks :: "senv \<Rightarrow> addr \<Rightarrow> addr \<Rightarrow> srvcall list" where
  "response_hooks env q r =
     [Set_hook q on_new_chunk r, Set_hook q on_chunk_complete r, Set_hook q on_chunks_complete r,
      Set_hook q on_error r, Set_write_hook (senv_conn env q) r, Set_hook q on_request_fini r]"

definition req_start_response :: "senv \<Rightarrow> addr \<Rightarrow> srv \<Rightarrow> srv option" where
  "req_start_response env r w =
     do { x \<leftarrow> reqs w r;
          q \<leftarrow> h_req x;
          let w = fold semit (response_hooks env q r) w;
          (case h_type x of
             REQ_TYPE_LINE \<Rightarrow>
               do { (rc, w) \<leftarrow> req_write_line env r (semit (Reply_chunk_start q EVHTP_RES_OK) w);
                    Some w }
           | REQ_TYPE_SIZE \<Rightarrow>
               do { (rc, w) \<leftarrow> req_write_buf env r (semit (Reply_chunk_start q EVHTP_RES_OK) w);
                    Some w }
           | _ \<Rightarrow> Some (semit (Reply q EVHTP_RES_ERROR) w)) }"

section \<open>The two URIs\<close>

definition linecb :: "senv \<Rightarrow> addr \<Rightarrow> srv \<Rightarrow> srv option" where
  "linecb env q w =
     (case req_create env q w of
        (None, w) \<Rightarrow> Some (semit (Reply q EVHTP_RES_ERROR) w)
      | (Some r, w) \<Rightarrow>
          do { (rc, w) \<leftarrow> req_set_type_line r 16 w;
               req_start_response env r w })"

definition sizecb :: "senv \<Rightarrow> addr \<Rightarrow> string option \<Rightarrow> srv \<Rightarrow> srv option" where
  \<comment> \<open>\<open>f\<close> is the value of the parameter \<open>size\<close> of the query, when there is one\<close>
  "sizecb env q f w =
     (case f of
        None \<Rightarrow> Some (semit (Reply q EVHTP_RES_ERROR) w)
      | Some val \<Rightarrow>
          (let reqsize = strtoull val in
           if reqsize = - 1 then Some (semit (Reply q EVHTP_RES_ERROR) w)
           else
             (case req_create env q w of
                (None, w) \<Rightarrow> Some (semit (Reply q EVHTP_RES_ERROR) w)
              | (Some r, w) \<Rightarrow>
                  do { (rc, w) \<leftarrow> req_set_type_buf env r reqsize w;
                       req_start_response env r w })))"

section \<open>What the log says\<close>

primrec outstanding :: "srvcall list \<Rightarrow> addr \<Rightarrow> nat" where
  \<comment> \<open>chunks that still point into the buffer of an object\<close>
  "outstanding [] r = 0"
| "outstanding (c # l) r = (case c of
      Reply_chunk q d ref \<Rightarrow> (if ref = Some r then Suc (outstanding l r) else outstanding l r)
    | Chunk_released r' \<Rightarrow> (if r' = r then outstanding l r - 1 else outstanding l r)
    | _ \<Rightarrow> outstanding l r)"

primrec shook :: "srvcall list \<Rightarrow> addr \<Rightarrow> hook \<Rightarrow> addr option" where
  "shook [] q h = None"
| "shook (c # l) q h = (case c of
      Set_hook q' h' r \<Rightarrow> (if q' = q \<and> h' = h then Some r else shook l q h)
    | Unset_all_hooks q' \<Rightarrow> (if q' = q then None else shook l q h)
    | _ \<Rightarrow> shook l q h)"

primrec write_hook :: "srvcall list \<Rightarrow> addr \<Rightarrow> addr option" where
  "write_hook [] k = None"
| "write_hook (c # l) k = (case c of
      Set_write_hook k' r \<Rightarrow> (if k' = k then Some r else write_hook l k)
    | Unset_write_hook k' \<Rightarrow> (if k' = k then None else write_hook l k)
    | _ \<Rightarrow> write_hook l k)"

primrec sent :: "srvcall list \<Rightarrow> addr \<Rightarrow> string" where
  \<comment> \<open>the bytes of the body sent on a request\<close>
  "sent [] q = []"
| "sent (c # l) q = (case c of
      Reply_chunk q' d ref \<Rightarrow> (if q' = q then sent l q @ d else sent l q)
    | _ \<Rightarrow> sent l q)"

primrec ends :: "srvcall list \<Rightarrow> addr \<Rightarrow> nat" where
  "ends [] q = 0"
| "ends (c # l) q = (if c = Reply_chunk_end q then Suc (ends l q) else ends l q)"

lemma semit_sel [simp]:
  "scalls (semit c w) = c # scalls w" "reqs (semit c w) = reqs w" "s_next (semit c w) = s_next w"
  by (simp_all add: semit_def)

lemma set_req_sel [simp]:
  "reqs (set_req r x w) = (reqs w)(r \<mapsto> x)" "scalls (set_req r x w) = scalls w"
  "s_next (set_req r x w) = s_next w"
  by (simp_all add: set_req_def)

end
