(* ===== verification/Server_Writers.thy ===== *)
theory Server_Writers
  imports Server
begin

text \<open>
  What a response consists of. \<open>chunk_writer\<close> is the contract of the code that
  writes a response piece by piece: bytes sent plus bytes left stay the same, a
  call makes progress, and the end is announced exactly when nothing is left.
  The line writer and the buffer writer of \<open>srv/http.c\<close> both keep it.
\<close>

definition pattern :: "nat \<Rightarrow> char" where
  \<comment> \<open>the byte the fill loop puts at an index\<close>
  "pattern k = (if k mod 41 = 0 then CHR 0x0A else char_of (65 + (k - (k + 40) div 41) mod 26))"

definition size_byte :: "nat \<Rightarrow> char" where
  \<comment> \<open>the byte at an offset of a sized response\<close>
  "size_byte k = (if k mod BUF_SIZE = BUF_SIZE - 1 then CHR 0x0A else pattern (k mod BUF_SIZE))"

primrec drive :: "senv \<Rightarrow> addr \<Rightarrow> addr \<Rightarrow> nat \<Rightarrow> srv \<Rightarrow> srv option" where
  \<comment> \<open>at most \<open>n\<close> more runs of the write hook, until the end of the response is sent\<close>
  "drive env r q 0 w = Some w"
| "drive env r q (Suc n) w =
     (if ends (scalls w) q = 1 then Some w
      else do { (rc, w) \<leftarrow> send_upstream_on_write env r w; drive env r q n w })"

section \<open>The contents of the buffer\<close>

lemma length_fill_loop [simp]: "length (fill_loop n i j b) = length b"
proof (induction n i j b rule: fill_loop.induct)
  case (1 n i j b)
  then show ?case by (subst fill_loop.simps) simp
qed

lemma lines_before:
  fixes i :: nat
  shows "(i + 40) div 41 = i div 41 + (if i mod 41 = 0 then 0 else 1)"
proof -
  define a b where "a = i div 41" and "b = i mod 41"
  have i: "i = b + 41 * a" and b: "b < 41" by (simp_all add: a_def b_def)
  have "(i + 40) div 41 = a + (b + 40) div 41"
    unfolding i using div_mult_self2 [of 41 "b + 40" a] by (simp add: ac_simps)
  moreover have "(b + 40) div 41 = (if b = 0 then 0 else 1)"
    using b by (auto intro: div_nat_eqI)
  ultimately show ?thesis by (simp add: a_def b_def)
qed

lemma fill_count:
  fixes i :: nat
  shows "i mod 41 = 0 \<Longrightarrow> i + 1 - (i + 1 + 40) div 41 = i - (i + 40) div 41"
    and "i mod 41 \<noteq> 0 \<Longrightarrow> i + 1 - (i + 1 + 40) div 41 = i - (i + 40) div 41 + 1"
proof -
  have s: "(i + 1 + 40) div 41 = i div 41 + 1" by simp
  have i: "i = 41 * (i div 41) + i mod 41" by simp
  note t = lines_before [of i]
  show "i mod 41 = 0 \<Longrightarrow> i + 1 - (i + 1 + 40) div 41 = i - (i + 40) div 41"
    unfolding s t by simp
  show "i mod 41 \<noteq> 0 \<Longrightarrow> i + 1 - (i + 1 + 40) div 41 = i - (i + 40) div 41 + 1"
    unfolding s t using i by simp
qed

lemma fill_loop_nth:
  "n \<le> length b \<Longrightarrow> k < length b \<Longrightarrow> j = i - (i + 40) div 41 \<Longrightarrow>
   fill_loop n i j b ! k = (if i \<le> k \<and> k < n then pattern k else b ! k)"
proof (induction n i j b rule: fill_loop.induct)
  case (1 n i j b)
  show ?case
  proof (cases "i < n")
    case False
    then show ?thesis by (subst fill_loop.simps) auto
  next
    case lt: True
    show ?thesis
    proof (cases "i mod 41 = 0")
      case True
      then have "fill_loop n i j b ! k = fill_loop n (i + 1) j (b[i := CHR 0x0A]) ! k"
        using lt by (subst fill_loop.simps) simp
      also have "\<dots> = (if i + 1 \<le> k \<and> k < n then pattern k else b[i := CHR 0x0A] ! k)"
        by (rule 1(1)) (use 1(3-5) lt True fill_count(1) in simp_all)
      finally show ?thesis using 1(3,4) lt True
        by (cases "k = i") (auto simp: pattern_def nth_list_update)
    next
      case False
      let ?b = "b[i := char_of (65 + j mod 26)]"
      have "fill_loop n i j b ! k = fill_loop n (i + 1) (j + 1) ?b ! k"
        using lt False by (subst fill_loop.simps) simp
      also have "\<dots> = (if i + 1 \<le> k \<and> k < n then pattern k else ?b ! k)"
        by (rule 1(2)) (use 1(3-5) lt False fill_count(2) in simp_all)
      finally show ?thesis using 1(3-5) lt False
        by (cases "k = i") (auto simp: pattern_def nth_list_update)
    qed
  qed
qed

lemma fill_buf_eq:
  assumes "length b = n" "0 < n"
  shows "fill_buf n b = map (\<lambda>k. if k = n - 1 then CHR 0x0A else pattern k) [0..<n]"
  by (rule nth_equalityI)
    (use assms in \<open>auto simp: fill_buf_def nth_list_update fill_loop_nth\<close>)

lemma length_malloc_bytes [simp]: "length (malloc_bytes env a n) = n"
  by (simp add: malloc_bytes_def)

lemma filled: "fill_buf BUF_SIZE (malloc_bytes env a BUF_SIZE) = map size_byte [0..<BUF_SIZE]"
  by (subst fill_buf_eq) (auto simp: size_byte_def BUF_SIZE_def)

lemma size_byte_shift: "m mod BUF_SIZE = 0 \<Longrightarrow> size_byte (m + i) = size_byte i"
  by (simp add: size_byte_def mod_add_eq [symmetric])

lemma size_bytes_shift:
  "m mod BUF_SIZE = 0 \<Longrightarrow> map size_byte [m..<m + n] = map size_byte [0..<n]"
  by (rule nth_equalityI) (simp_all add: size_byte_shift)

section \<open>The contract of a writer\<close>

locale chunk_writer =
  fixes step :: "'w \<Rightarrow> (evhtp_res \<times> 'w) option" and sent_so_far :: "'w \<Rightarrow> string"
    and left :: "'w \<Rightarrow> string" and todo :: "'w \<Rightarrow> nat" and over :: "'w \<Rightarrow> bool"
    and ok :: "'w \<Rightarrow> bool"
  assumes not_over: "ok w \<Longrightarrow> \<not> over w \<and> 0 < todo w"
    and step: "ok w \<Longrightarrow> \<exists>w'. step w = Some (EVHTP_RES_OK, w')
      \<and> sent_so_far w' @ left w' = sent_so_far w @ left w
      \<and> (over w' \<longleftrightarrow> left w' = [])
      \<and> (\<not> over w' \<longrightarrow> ok w' \<and> todo w' < todo w)"
begin

primrec until_over :: "nat \<Rightarrow> 'w \<Rightarrow> 'w option" where
  "until_over 0 w = Some w"
| "until_over (Suc n) w =
     (if over w then Some w else do { (rc, w) \<leftarrow> step w; until_over n w })"

lemma until_over_over: "over w \<Longrightarrow> until_over n w = Some w"
  by (cases n) simp_all

lemma complete:
  "ok w \<Longrightarrow> todo w \<le> n \<Longrightarrow>
   \<exists>w'. until_over n w = Some w' \<and> over w' \<and> sent_so_far w' = sent_so_far w @ left w"
proof (induction n arbitrary: w)
  case 0
  then show ?case using not_over [of w] by simp
next
  case (Suc n)
  obtain w1 where w1: "step w = Some (EVHTP_RES_OK, w1)"
    "sent_so_far w1 @ left w1 = sent_so_far w @ left w" "over w1 \<longleftrightarrow> left w1 = []"
    "\<not> over w1 \<Longrightarrow> ok w1 \<and> todo w1 < todo w"
    using step [OF Suc.prems(1)] by blast
  have eq: "until_over (Suc n) w = until_over n w1" using w1(1) not_over [OF Suc.prems(1)] by simp
  show ?case
  proof (cases "over w1")
    case True
    then show ?thesis using eq w1(2,3) until_over_over by auto
  next
    case False
    then obtain w' where "until_over n w1 = Some w'" "over w'"
      "sent_so_far w' = sent_so_far w1 @ left w1"
      using Suc.IH [of w1] w1(4) Suc.prems(2) by auto
    then show ?thesis using eq w1(2) by simp
  qed
qed

end

section \<open>The line writer\<close>

definition line_ok :: "addr \<Rightarrow> addr \<Rightarrow> srv \<Rightarrow> bool" where
  "line_ok r q w \<longleftrightarrow> ends (scalls w) q = 0 \<and>
     (case reqs w r of None \<Rightarrow> False
      | Some x \<Rightarrow> h_req x = Some q \<and> h_type x = REQ_TYPE_LINE \<and> 0 \<le> cur_count x
          \<and> cur_count x < max_count x \<and> max_count x \<le> INT_MAX)"

definition line_left :: "addr \<Rightarrow> srv \<Rightarrow> string" where
  "line_left r w = (case reqs w r of None \<Rightarrow> []
     | Some x \<Rightarrow> concat (replicate (nat (max_count x - cur_count x)) line_text))"

definition line_todo :: "addr \<Rightarrow> srv \<Rightarrow> nat" where
  "line_todo r w = (case reqs w r of None \<Rightarrow> 0 | Some x \<Rightarrow> nat (max_count x - cur_count x))"

lemma line_text_nonempty: "line_text \<noteq> []" "0 < length line_text"
  by (simp_all add: line_text_def)

interpretation lw: chunk_writer "send_upstream_on_write env r" "\<lambda>w. sent (scalls w) q"
  "line_left r" "line_todo r" "\<lambda>w. ends (scalls w) q = 1" "line_ok r q" for env r q
proof (unfold_locales, goal_cases)
  case (1 w)
  then show ?case by (auto simp: line_ok_def line_todo_def split: option.splits)
next
  case (2 w)
  then obtain x where x: "reqs w r = Some x" "h_req x = Some q" "h_type x = REQ_TYPE_LINE"
    "0 \<le> cur_count x" "cur_count x < max_count x" "max_count x \<le> INT_MAX" "ends (scalls w) q = 0"
    by (auto simp: line_ok_def split: option.splits)
  define n where "n = nat (max_count x - cur_count x - 1)"
  have c: "c_int (cur_count x + 1) = cur_count x + 1"
    by (rule c_int_id) (use x in \<open>simp add: in_int_def INT_MIN_def\<close>)
  have n: "nat (max_count x - cur_count x) = Suc n" "nat (max_count x - (cur_count x + 1)) = n"
    "max_count x \<le> cur_count x + 1 \<longleftrightarrow> n = 0"
    using x by (auto simp: n_def)
  show ?case
    using x n line_text_nonempty
    by (cases "n = 0")
      (simp_all add: send_upstream_on_write_def req_write_line_def c line_left_def line_ok_def line_todo_def
        Let_def)
qed

section \<open>The buffer writer\<close>

definition buf_ok :: "addr \<Rightarrow> addr \<Rightarrow> srv \<Rightarrow> bool" where
  "buf_ok r q w \<longleftrightarrow> ends (scalls w) q = 0 \<and>
     (case reqs w r of None \<Rightarrow> False
      | Some x \<Rightarrow> h_req x = Some q \<and> h_type x = REQ_TYPE_SIZE
          \<and> buf x = Some (map size_byte [0..<BUF_SIZE]) \<and> buf_size x = of_nat BUF_SIZE
          \<and> current_ofs x \<le> reply_size x \<and> unat (current_ofs x) mod BUF_SIZE = 0)"

definition buf_left :: "addr \<Rightarrow> srv \<Rightarrow> string" where
  "buf_left r w = (case reqs w r of None \<Rightarrow> []
     | Some x \<Rightarrow> map size_byte [unat (current_ofs x)..<unat (reply_size x)])"

definition buf_todo :: "addr \<Rightarrow> srv \<Rightarrow> nat" where
  "buf_todo r w = (case reqs w r of None \<Rightarrow> 0
     | Some x \<Rightarrow> (unat (reply_size x) - unat (current_ofs x)) div BUF_SIZE + 1)"

lemma write_buf_step:
  fixes ofs size :: u64
  assumes "ofs \<le> size" and ws: "ws = (if size - ofs > of_nat BUF_SIZE then of_nat BUF_SIZE else size - ofs)"
  shows "unat ws = min BUF_SIZE (unat size - unat ofs)" "unat (ofs + ws) = unat ofs + unat ws"
proof -
  have d: "unat (size - ofs) = unat size - unat ofs" using assms(1) by (rule unat_sub)
  have b: "unat (of_nat BUF_SIZE :: u64) = BUF_SIZE" by (simp add: BUF_SIZE_def)
  show w: "unat ws = min BUF_SIZE (unat size - unat ofs)"
    unfolding ws by (auto simp: word_less_nat_alt d b)
  have "unat ofs \<le> unat size" using assms(1) by (simp add: word_le_nat_alt)
  then have "unat ofs + unat ws \<le> unat size" using w by simp
  then have "unat ofs + unat ws < 2 ^ 64" using unsigned_less [where 'a = nat and w = size] by simp
  then show "unat (ofs + ws) = unat ofs + unat ws" by (subst unat_add_lem [symmetric]) simp
qed

interpretation bw: chunk_writer "send_upstream_on_write env r" "\<lambda>w. sent (scalls w) q"
  "buf_left r" "buf_todo r" "\<lambda>w. ends (scalls w) q = 1" "buf_ok r q" for env r q
proof (unfold_locales, goal_cases)
  case (1 w)
  then show ?case by (auto simp: buf_ok_def buf_todo_def split: option.splits)
next
  case (2 w)
  then obtain x where x: "reqs w r = Some x" "h_req x = Some q" "h_type x = REQ_TYPE_SIZE"
    "buf x = Some (map size_byte [0..<BUF_SIZE])" "buf_size x = of_nat BUF_SIZE"
    "current_ofs x \<le> reply_size x" "unat (current_ofs x) mod BUF_SIZE = 0" "ends (scalls w) q = 0"
    by (auto simp: buf_ok_def split: option.splits)
  define ws where "ws = (if reply_size x - current_ofs x > of_nat BUF_SIZE then of_nat BUF_SIZE
    else reply_size x - current_ofs x)"
  note S = write_buf_step [OF x(6) ws_def]
  define o' where "o' = current_ofs x + ws"
  have fin: "reply_size x \<le> o' \<longleftrightarrow> unat (reply_size x) \<le> unat (current_ofs x) + unat ws"
    by (simp add: o'_def word_le_nat_alt S(2))
  have ro: "unat (current_ofs x) \<le> unat (reply_size x)" using x(6) by (simp add: word_le_nat_alt)
  define a where "a = unat (current_ofs x)" define z where "z = unat (reply_size x)"
  have wle: "unat ws \<le> BUF_SIZE" "a + unat ws \<le> z" using S(1) ro by (auto simp: a_def z_def)
  have piece: "take (unat ws) (map size_byte [0..<BUF_SIZE]) @ map size_byte [a + unat ws..<z]
      = map size_byte [a..<z]"
  proof -
    have "take (unat ws) (map size_byte [0..<BUF_SIZE]) = map size_byte [0..<unat ws]"
      using wle(1) by (simp add: take_map)
    also have "\<dots> = map size_byte [a..<a + unat ws]"
      using size_bytes_shift [of a "unat ws"] x(7) by (simp add: a_def)
    finally show ?thesis using wle(2) by (metis le_add1 map_append upt_add_eq_append le_add_diff_inverse)
  qed
  have wse: "(if reply_size x - current_ofs x > buf_size x then buf_size x
      else reply_size x - current_ofs x) = ws" by (simp add: ws_def x(5))
  obtain w' x' where w': "send_upstream_on_write env r w = Some (EVHTP_RES_OK, w')"
    "reqs w' r = Some x'" "current_ofs x' = o'" "reply_size x' = reply_size x" "h_req x' = Some q"
    "h_type x' = REQ_TYPE_SIZE" "buf x' = buf x" "buf_size x' = buf_size x"
    "sent (scalls w') q = sent (scalls w) q @ take (unat ws) (map size_byte [0..<BUF_SIZE])"
    "ends (scalls w') q = (if reply_size x \<le> o' then 1 else 0)"
    using x(1-4,8) wle(1) wse
    by (cases "reply_size x \<le> o'")
      (simp_all add: send_upstream_on_write_def req_write_buf_def Let_def o'_def)
  have l: "buf_left r w = map size_byte [a..<z]" "buf_left r w' = map size_byte [a + unat ws..<z]"
    using x w' S(2) by (simp_all add: buf_left_def a_def z_def o'_def)
  have t: "buf_todo r w = (z - a) div BUF_SIZE + 1"
    "buf_todo r w' = (z - (a + unat ws)) div BUF_SIZE + 1"
    using x w' S(2) by (simp_all add: buf_todo_def a_def z_def o'_def)
  have "ok": "buf_ok r q w' \<and> buf_todo r w' < buf_todo r w" if "\<not> reply_size x \<le> o'"
  proof -
    have "unat ws = BUF_SIZE" "a + BUF_SIZE < z"
      using that fin S(1) by (auto simp: a_def z_def min_def split: if_splits)
    moreover from this have "unat o' mod BUF_SIZE = 0" using x(7) by (simp add: o'_def S(2))
    moreover have "(z - (a + BUF_SIZE)) div BUF_SIZE < (z - a) div BUF_SIZE"
      if "a + BUF_SIZE < z"
      using that div_add_self2 [of BUF_SIZE "z - (a + BUF_SIZE)"] by (simp add: BUF_SIZE_def)
    ultimately show ?thesis using \<open>\<not> reply_size x \<le> o'\<close> w' x t
      by (auto simp: buf_ok_def)
  qed
  show ?case
    using w'(1,9,10) "ok" l fin piece by (auto simp: a_def z_def)
qed

section \<open>Whole responses\<close>

lemma drive_until: "drive env r q n w = lw.until_over env r q n w"
proof (induction n arbitrary: w)
  case (Suc n)
  then show ?case by (cases "send_upstream_on_write env r w") (auto simp del: One_nat_def)
qed (simp del: One_nat_def)

lemma drive_line:
  assumes "line_ok r q w" "line_todo r w \<le> n"
  shows "\<exists>w'. drive env r q n w = Some w' \<and> ends (scalls w') q = 1
    \<and> sent (scalls w') q = sent (scalls w) q @ line_left r w"
  unfolding drive_until by (rule lw.complete [OF assms])

lemma drive_buf:
  assumes "buf_ok r q w" "buf_todo r w \<le> n"
  shows "\<exists>w'. drive env r q n w = Some w' \<and> ends (scalls w') q = 1
    \<and> sent (scalls w') q = sent (scalls w) q @ buf_left r w"
  unfolding drive_until by (rule bw.complete [OF assms])

end
