(* ===== verification/Server_Safety.thy ===== *)
theory Server_Safety
  imports Server_Writers Event_System
begin

text \<open>
  The life of the response objects of the server. Inputs are requests for the
  two URIs, progress of a connection, the hooks of a request and the release of
  chunks, in any order the log allows. The connection of a request that has
  ended makes no progress any more, and the number of chunks of one response in
  the output buffer stays below what an \<open>int\<close> can count.
\<close>

datatype sinput =
    Get_line addr
  | Get_size addr "string option"
  | Write_progress addr
  | Request_error addr
  | Request_ended addr
  | Chunk_free addr
  | New_chunk addr
  | Chunk_done addr
  | Chunks_done addr

fun senabled :: "senv \<Rightarrow> srvcall list \<Rightarrow> sinput \<Rightarrow> bool" where
  "senabled env l (Get_line q) = (shook l q on_error = None \<and> shook l q on_request_fini = None)"
| "senabled env l (Get_size q f) = (shook l q on_error = None \<and> shook l q on_request_fini = None)"
| "senabled env l (Write_progress q) =
     (case write_hook l (senv_conn env q) of
        None \<Rightarrow> False
      | Some r \<Rightarrow> shook l q on_request_fini = Some r \<and> int (outstanding l r) + 2 \<le> INT_MAX)"
| "senabled env l (Request_error q) = (shook l q on_error \<noteq> None)"
| "senabled env l (Request_ended q) = (shook l q on_request_fini \<noteq> None)"
| "senabled env l (Chunk_free r) = (0 < outstanding l r)"
| "senabled env l (New_chunk q) = (shook l q on_new_chunk \<noteq> None)"
| "senabled env l (Chunk_done q) = (shook l q on_chunk_complete \<noteq> None)"
| "senabled env l (Chunks_done q) = (shook l q on_chunks_complete \<noteq> None)"

fun sdeliver :: "senv \<Rightarrow> sinput \<Rightarrow> srv \<Rightarrow> srv option" where
  "sdeliver env (Get_line q) w = linecb env q w"
| "sdeliver env (Get_size q f) w = sizecb env q f w"
| "sdeliver env (Write_progress q) w =
     do { r \<leftarrow> write_hook (scalls w) (senv_conn env q);
          (rc, w) \<leftarrow> send_upstream_on_write env r w;
          Some w }"
| "sdeliver env (Request_error q) w =
     do { r \<leftarrow> shook (scalls w) q on_error;
          (rc, w) \<leftarrow> send_upstream_error q r w;
          Some w }"
| "sdeliver env (Request_ended q) w =
     do { r \<leftarrow> shook (scalls w) q on_request_fini;
          (rc, w) \<leftarrow> send_upstream_fini r w;
          Some w }"
| "sdeliver env (Chunk_free r) w = req_evbuf_free r (semit (Chunk_released r) w)"
| "sdeliver env (New_chunk q) w =
     do { r \<leftarrow> shook (scalls w) q on_new_chunk;
          (rc, w) \<leftarrow> send_upstream_new_chunk r w;
          Some w }"
| "sdeliver env (Chunk_done q) w =
     do { r \<leftarrow> shook (scalls w) q on_chunk_complete;
          (rc, w) \<leftarrow> send_upstream_chunk_done r w;
          Some w }"
| "sdeliver env (Chunks_done q) w =
     do { r \<leftarrow> shook (scalls w) q on_chunks_complete;
          (rc, w) \<leftarrow> send_upstream_chunks_done r w;
          Some w }"

definition srv_zero :: srv where
  "srv_zero = \<lparr>reqs = Map.empty, scalls = [], s_next = 0\<rparr>"

inductive srv_reachable :: "senv \<Rightarrow> srv \<Rightarrow> bool" for env where
  start: "srv_reachable env srv_zero"
| step: "srv_reachable env w \<Longrightarrow> senabled env (scalls w) i \<Longrightarrow> sdeliver env i w = Some w' \<Longrightarrow>
    srv_reachable env w'"

section \<open>The invariant\<close>

definition type_ok :: "http_req \<Rightarrow> bool" where
  "type_ok x \<longleftrightarrow> (h_type x = REQ_TYPE_SIZE \<longrightarrow>
     (\<exists>b. buf x = Some b \<and> length b = BUF_SIZE) \<and> buf_size x = of_nat BUF_SIZE)"

definition obj_ok :: "srvcall list \<Rightarrow> addr \<Rightarrow> http_req \<Rightarrow> bool" where
  "obj_ok l r x \<longleftrightarrow> refcnt x = of_bool (h_req x \<noteq> None) + int (outstanding l r) \<and> 0 < refcnt x
     \<and> refcnt x \<le> INT_MAX
     \<and> (\<forall>q h. h_req x = Some q \<longrightarrow> h \<noteq> on_headers_start \<longrightarrow> shook l q h = Some r)
     \<and> type_ok x \<and> (0 < outstanding l r \<longrightarrow> h_type x = REQ_TYPE_SIZE)"

definition srv_inv :: "srv \<Rightarrow> bool" where
  "srv_inv w \<longleftrightarrow> (\<forall>r x. reqs w r = Some x \<longrightarrow> obj_ok (scalls w) r x \<and> r < s_next w)
     \<and> (\<forall>r. 0 < outstanding (scalls w) r \<longrightarrow> reqs w r \<noteq> None)
     \<and> (\<forall>q h r. shook (scalls w) q h = Some r \<longrightarrow> (\<exists>x. reqs w r = Some x \<and> h_req x = Some q))"

lemma srv_invD:
  assumes "srv_inv w"
  shows "reqs w r = Some x \<Longrightarrow> obj_ok (scalls w) r x" "reqs w r = Some x \<Longrightarrow> r < s_next w"
    "0 < outstanding (scalls w) r \<Longrightarrow> \<exists>x. reqs w r = Some x"
    "shook (scalls w) q h = Some r \<Longrightarrow> \<exists>x. reqs w r = Some x \<and> h_req x = Some q"
  using assms by (auto simp: srv_inv_def)

text \<open>A step on one object and the request it is attached to.\<close>

lemma srv_inv_local:
  assumes inv: "srv_inv w" and w': "reqs w' = (reqs w)(r := v)" "s_next w \<le> s_next w'"
    and out: "\<And>r'. r' \<noteq> r \<Longrightarrow> outstanding (scalls w') r' = outstanding (scalls w) r'"
    and hk: "\<And>q'. q' \<noteq> q \<Longrightarrow> shook (scalls w') q' = shook (scalls w) q'"
    and q: "\<And>r' x. reqs w r' = Some x \<Longrightarrow> r' \<noteq> r \<Longrightarrow> h_req x \<noteq> Some q"
    and q': "\<And>q' h. q' \<noteq> q \<Longrightarrow> shook (scalls w) q' h \<noteq> Some r"
    and v: "\<And>x. v = Some x \<Longrightarrow> obj_ok (scalls w') r x \<and> r < s_next w'"
    and none: "v = None \<Longrightarrow> outstanding (scalls w') r = 0"
    and qh: "\<And>h r'. shook (scalls w') q h = Some r' \<Longrightarrow> r' = r \<and> (\<exists>x. v = Some x \<and> h_req x = Some q)"
  shows "srv_inv w'"
  unfolding srv_inv_def
proof (intro conjI allI impI)
  fix r' x assume x: "reqs w' r' = Some x"
  show "obj_ok (scalls w') r' x"
  proof (cases "r' = r")
    case True
    then show ?thesis using x v w'(1) by simp
  next
    case False
    then have x: "reqs w r' = Some x" using x w'(1) by simp
    have "h_req x \<noteq> Some q" by (rule q [OF x False])
    then have "h_req x = Some q' \<Longrightarrow> shook (scalls w') q' = shook (scalls w) q'" for q'
      using hk by auto
    then show ?thesis using srv_invD(1) [OF inv x] out [OF False] by (auto simp: obj_ok_def)
  qed
  show "r' < s_next w'"
    using x v w' srv_invD(2) [OF inv, of r'] by (cases "r' = r") (auto intro: less_le_trans)
next
  fix r' assume "0 < outstanding (scalls w') r'"
  then show "reqs w' r' \<noteq> None"
    using none out [of r'] srv_invD(3) [OF inv, of r'] w'(1) by (cases "r' = r") auto
next
  fix q1 h r' assume s: "shook (scalls w') q1 h = Some r'"
  show "\<exists>x. reqs w' r' = Some x \<and> h_req x = Some q1"
  proof (cases "q1 = q")
    case True
    then show ?thesis using qh s w'(1) by auto
  next
    case False
    then have s': "shook (scalls w) q1 h = Some r'" using s hk by simp
    moreover have "r' \<noteq> r" using q' [OF False, of h] s' by auto
    ultimately show ?thesis using srv_invD(4) [OF inv s'] w'(1) by auto
  qed
qed

lemma attached:
  assumes inv: "srv_inv w" and x: "reqs w r = Some x" "h_req x = Some q"
  shows "\<And>r' x'. reqs w r' = Some x' \<Longrightarrow> r' \<noteq> r \<Longrightarrow> h_req x' \<noteq> Some q"
    "\<And>q' h. q' \<noteq> q \<Longrightarrow> shook (scalls w) q' h \<noteq> Some r"
    "\<And>h r'. shook (scalls w) q h = Some r' \<Longrightarrow> r' = r"
proof -
  have h: "h \<noteq> on_headers_start \<Longrightarrow> shook (scalls w) q h = Some r" for h
    using srv_invD(1) [OF inv x(1)] x(2) by (simp add: obj_ok_def)
  show a: "h_req x' \<noteq> Some q" if "reqs w r' = Some x'" "r' \<noteq> r" for r' x'
    using srv_invD(1) [OF inv that(1)] h [of on_error] that(2) by (auto simp: obj_ok_def)
  show "shook (scalls w) q' h \<noteq> Some r" if "q' \<noteq> q" for q' h
    using srv_invD(4) [OF inv, of q' h r] x that by auto
  show "r' = r" if "shook (scalls w) q h = Some r'" for h r'
    using srv_invD(4) [OF inv that] a by blast
qed

section \<open>The operations\<close>

lemma obj_ok_count:
  assumes "srv_inv w" "reqs w r = Some x"
  shows "refcnt x = of_bool (h_req x \<noteq> None) + int (outstanding (scalls w) r)" "0 < refcnt x"
    "refcnt x \<le> INT_MAX" "c_int (refcnt x - 1) = refcnt x - 1"
proof -
  show *: "refcnt x = of_bool (h_req x \<noteq> None) + int (outstanding (scalls w) r)" "0 < refcnt x"
    "refcnt x \<le> INT_MAX"
    using srv_invD(1) [OF assms] by (simp_all add: obj_ok_def)
  show "c_int (refcnt x - 1) = refcnt x - 1"
    by (rule c_int_id) (use *(2,3) in \<open>simp add: in_int_def INT_MIN_def\<close>)
qed

lemma write_line_ok:
  assumes inv: "srv_inv w" and x: "reqs w r = Some x" "h_req x = Some q" "h_type x = REQ_TYPE_LINE"
  shows "\<exists>w'. req_write_line env r w = Some (EVHTP_RES_OK, w') \<and> srv_inv w'"
proof -
  obtain x' w' where w': "req_write_line env r w = Some (EVHTP_RES_OK, w')"
    "reqs w' = (reqs w)(r \<mapsto> x')" "s_next w' = s_next w"
    "outstanding (scalls w') = outstanding (scalls w)" "shook (scalls w') = shook (scalls w)"
    "h_req x' = h_req x" "refcnt x' = refcnt x" "h_type x' = h_type x"
    using x
    by (cases "max_count x \<le> c_int (cur_count x + 1)")
      (auto simp: req_write_line_def Let_def fun_eq_iff)
  have "obj_ok (scalls w') r x'"
    using srv_invD(1) [OF inv x(1)] x(2,3) by (simp add: obj_ok_def type_ok_def w'(4-8))
  then have "srv_inv w'"
    by (intro srv_inv_local [OF inv w'(2), where q = q])
      (use w'(3-6) x(2) srv_invD(2) [OF inv x(1)] attached [OF inv x(1,2)] in auto)
  then show ?thesis using w'(1) by blast
qed

lemma write_buf_ok:
  assumes inv: "srv_inv w" and x: "reqs w r = Some x" "h_req x = Some q" "h_type x = REQ_TYPE_SIZE"
    and b: "int (outstanding (scalls w) r) + 2 \<le> INT_MAX"
  shows "\<exists>w'. req_write_buf env r w = Some (EVHTP_RES_OK, w') \<and> srv_inv w'"
proof -
  note C = obj_ok_count [OF inv x(1)]
  obtain b where bf: "buf x = Some b" "length b = BUF_SIZE" "buf_size x = of_nat BUF_SIZE"
    using srv_invD(1) [OF inv x(1)] x(3) by (auto simp: obj_ok_def type_ok_def)
  define ws where "ws = (if reply_size x - current_ofs x > buf_size x then buf_size x
      else reply_size x - current_ofs x)"
  have "ws \<le> of_nat BUF_SIZE" using bf by (auto simp: ws_def)
  then have "unat ws \<le> length b" using bf by (simp add: word_le_nat_alt BUF_SIZE_def)
  moreover have "c_int (refcnt x + 1) = refcnt x + 1"
    by (rule c_int_id) (use C b x(2) in \<open>simp add: in_int_def INT_MIN_def\<close>)
  ultimately obtain x' w' where w': "req_write_buf env r w = Some (EVHTP_RES_OK, w')"
    "reqs w' = (reqs w)(r \<mapsto> x')" "s_next w' = s_next w"
    "outstanding (scalls w') = (outstanding (scalls w))(r := Suc (outstanding (scalls w) r))"
    "shook (scalls w') = shook (scalls w)" "h_req x' = h_req x" "refcnt x' = refcnt x + 1"
    "h_type x' = h_type x" "buf x' = buf x" "buf_size x' = buf_size x"
    using x bf(1)
    by (cases "reply_size x \<le> current_ofs x + ws")
      (auto simp: req_write_buf_def Let_def fun_eq_iff ws_def [symmetric])
  have "obj_ok (scalls w') r x'"
    using srv_invD(1) [OF inv x(1)] x(2,3) b by (simp add: obj_ok_def type_ok_def w'(4-10))
  then have "srv_inv w'"
    by (intro srv_inv_local [OF inv w'(2), where q = q])
      (use w'(3-6) x(2) srv_invD(2) [OF inv x(1)] attached [OF inv x(1,2)] in auto)
  then show ?thesis using w'(1) by blast
qed

text \<open>The request ends: its hooks go, and with them one reference.\<close>

lemma detach_ok:
  assumes inv: "srv_inv w" and x: "reqs w r = Some x" "h_req x = Some q"
  shows "\<exists>w'. req_free r (set_req r (x\<lparr>h_req := None\<rparr>) (semit (Unset_all_hooks q) w)) = Some w'
    \<and> srv_inv w' \<and> (reqs w' r = None \<longleftrightarrow> outstanding (scalls w) r = 0)"
proof -
  note C = obj_ok_count [OF inv x(1)]
  note A = attached [OF inv x]
  have rc: "refcnt x - 1 = int (outstanding (scalls w) r)" using C(1) x(2) by simp
  show ?thesis
  proof (cases "0 < outstanding (scalls w) r")
    case True
    let ?x = "x\<lparr>h_req := None, refcnt := refcnt x - 1\<rparr>"
    let ?w = "set_req r ?x (semit (Unset_all_hooks q) w)"
    have ok: "obj_ok (scalls ?w) r ?x"
      using srv_invD(1) [OF inv x(1)] x(2) True by (simp add: obj_ok_def type_ok_def)
    have "srv_inv ?w"
    proof (rule srv_inv_local [OF inv, where r = r and q = q and v = "Some ?x"])
      show "shook (scalls ?w) q' = shook (scalls w) q'" if "q' \<noteq> q" for q'
        using that by (simp add: fun_eq_iff)
    qed (use ok A(1,2) srv_invD(2) [OF inv x(1)] in simp_all)
    then show ?thesis using C(4) rc True by (simp add: req_free_def set_req_def semit_def)
  next
    case False
    let ?w = "(semit (Unset_all_hooks q) w)\<lparr>reqs := (reqs w)(r := None)\<rparr>"
    have "srv_inv ?w"
    proof (rule srv_inv_local [OF inv, where r = r and q = q and v = None])
      show "shook (scalls ?w) q' = shook (scalls w) q'" if "q' \<noteq> q" for q'
        using that by (simp add: fun_eq_iff)
    qed (use A(1,2) False in simp_all)
    then show ?thesis using C(4) rc False by (simp add: req_free_def set_req_def semit_def)
  qed
qed

text \<open>A chunk is released: the reference it held goes.\<close>

lemma obj_ok_other: "r' \<noteq> r \<Longrightarrow> obj_ok (Chunk_released r # l) r' x = obj_ok l r' x"
  by (simp add: obj_ok_def)

lemma released_ok:
  assumes inv: "srv_inv w" and o: "0 < outstanding (scalls w) r"
  shows "\<exists>w'. req_evbuf_free r (semit (Chunk_released r) w) = Some w' \<and> srv_inv w'"
proof -
  obtain x where x: "reqs w r = Some x" using srv_invD(3) [OF inv o] by blast
  note C = obj_ok_count [OF inv x]
  define v where "v = (if 0 < refcnt x - 1 then Some (x\<lparr>refcnt := refcnt x - 1\<rparr>) else None)"
  let ?w = "(semit (Chunk_released r) w)\<lparr>reqs := (reqs w)(r := v)\<rparr>"
  have out: "outstanding (scalls w) r = Suc (outstanding (scalls w) r - 1)" using o by simp
  have ret: "req_evbuf_free r (semit (Chunk_released r) w) = Some ?w"
    using x C(4) by (simp add: req_evbuf_free_def req_free_def v_def set_req_def semit_def)
  have v: "obj_ok (scalls ?w) r y" if "v = Some y" for y
    using that srv_invD(1) [OF inv x] o
    by (auto simp: v_def obj_ok_def type_ok_def of_nat_diff split: if_splits)
  have "srv_inv ?w"
    unfolding srv_inv_def
  proof (intro conjI allI impI)
    fix r' x' assume x': "reqs ?w r' = Some x'"
    show "obj_ok (scalls ?w) r' x'"
    proof (cases "r' = r")
      case True
      then show ?thesis using v x' by simp
    next
      case False
      then show ?thesis using srv_invD(1) [OF inv, of r' x'] x' by (simp add: obj_ok_other)
    qed
    show "r' < s_next ?w"
      using x' x srv_invD(2) [OF inv, of r'] by (cases "r' = r") (auto simp: v_def split: if_splits)
  next
    fix r' assume o': "0 < outstanding (scalls ?w) r'"
    show "reqs ?w r' \<noteq> None"
    proof (cases "r' = r")
      case True
      then show ?thesis using o' C(1) by (auto simp: v_def)
    next
      case False
      then show ?thesis using o' srv_invD(3) [OF inv, of r'] by auto
    qed
  next
    fix q1 h r' assume s: "shook (scalls ?w) q1 h = Some r'"
    then obtain x' where x': "reqs w r' = Some x'" "h_req x' = Some q1"
      using srv_invD(4) [OF inv, of q1 h r'] by auto
    show "\<exists>x. reqs ?w r' = Some x \<and> h_req x = Some q1"
    proof (cases "r' = r")
      case True
      then show ?thesis using x x' C(1) o by (simp add: v_def)
    next
      case False
      then show ?thesis using x' by simp
    qed
  qed
  then show ?thesis using ret by blast
qed

text \<open>A request arrives.\<close>

lemma unused_request:
  assumes inv: "srv_inv w" and u: "shook (scalls w) q on_error = None"
  shows "reqs w r = Some x \<Longrightarrow> h_req x \<noteq> Some q" "shook (scalls w) q h = None"
proof -
  show n: "h_req x \<noteq> Some q" if "reqs w r = Some x" for r x
    using srv_invD(1) [OF inv that] u by (auto simp: obj_ok_def)
  show "shook (scalls w) q h = None"
    using srv_invD(4) [OF inv, of q h] n by (cases "shook (scalls w) q h") auto
qed

lemma fresh_object:
  assumes "srv_inv w" "s_next w \<le> r"
  shows "reqs w r = None" "outstanding (scalls w) r = 0" "shook (scalls w) q h \<noteq> Some r"
proof -
  show n: "reqs w r = None"
    using srv_invD(2) [OF assms(1), of r] assms(2) by (cases "reqs w r") force+
  show "outstanding (scalls w) r = 0" using srv_invD(3) [OF assms(1), of r] n by auto
  show "shook (scalls w) q h \<noteq> Some r" using srv_invD(4) [OF assms(1), of q h r] n by auto
qed

fun plain_call :: "srvcall \<Rightarrow> bool" where
  "plain_call (Reply_chunk_start q res) = True"
| "plain_call (Reply q res) = True"
| "plain_call c = False"

lemma plain_call_ok:
  assumes "srv_inv w" "plain_call c"
  shows "srv_inv (semit c w)"
proof -
  have "outstanding (c # scalls w) = outstanding (scalls w)" "shook (c # scalls w) = shook (scalls w)"
    using assms(2) by (cases c; simp add: fun_eq_iff)+
  moreover from this have "obj_ok (c # scalls w) = obj_ok (scalls w)"
    by (simp add: fun_eq_iff obj_ok_def)
  ultimately show ?thesis using assms(1) by (simp add: srv_inv_def)
qed

lemma srv_inv_next: "srv_inv w \<Longrightarrow> srv_inv (w\<lparr>s_next := Suc (s_next w)\<rparr>)"
  unfolding srv_inv_def by (simp add: less_SucI)

lemma start_response_ok:
  assumes inv: "srv_inv w" and u: "shook (scalls w) q on_error = None"
    and w1: "reqs w1 = (reqs w)(r \<mapsto> x)" "scalls w1 = scalls w" "s_next w \<le> r" "r < s_next w1"
    and x: "h_req x = Some q" "refcnt x = 1" "type_ok x"
  shows "\<exists>w'. req_start_response env r w1 = Some w' \<and> srv_inv w'"
proof -
  note U = unused_request [OF inv u]
  note F = fresh_object [OF inv w1(3)]
  define w2 where "w2 = fold semit (response_hooks env q r) w1"
  have w2: "reqs w2 = (reqs w)(r \<mapsto> x)" "s_next w2 = s_next w1"
    "outstanding (scalls w2) = outstanding (scalls w)"
    "shook (scalls w2) = (shook (scalls w))
       (q := (\<lambda>h. if h = on_headers_start then None else Some r))"
    using w1(1,2) U(2)
    by (auto simp: w2_def response_hooks_def fun_eq_iff split: hook.splits) (metis hook.exhaust)+
  have ok: "obj_ok (scalls w2) r x"
    using x F(2) by (simp add: obj_ok_def w2 INT_MAX_def)
  have "srv_inv w2"
    by (rule srv_inv_local [OF inv w2(1), where q = q])
      (use ok w1(3,4) x U F in \<open>auto simp: w2 split: if_splits\<close>)
  then have i3: "srv_inv (semit (Reply_chunk_start q EVHTP_RES_OK) w2)"
    "srv_inv (semit (Reply q EVHTP_RES_ERROR) w2)"
    by (auto intro: plain_call_ok)
  have x3: "reqs (semit c w2) r = Some x" for c by (simp add: w2)
  have e: "req_start_response env r w1 = (case h_type x of
             REQ_TYPE_LINE \<Rightarrow>
               do { (rc, w) \<leftarrow> req_write_line env r (semit (Reply_chunk_start q EVHTP_RES_OK) w2);
                    Some w }
           | REQ_TYPE_SIZE \<Rightarrow>
               do { (rc, w) \<leftarrow> req_write_buf env r (semit (Reply_chunk_start q EVHTP_RES_OK) w2);
                    Some w }
           | _ \<Rightarrow> Some (semit (Reply q EVHTP_RES_ERROR) w2))"
    using x(1) w1(1) 
    by (cases "h_type x") (simp_all add: req_start_response_def w2_def Let_def)
  show ?thesis
  proof (cases "h_type x")
    case REQ_TYPE_NONE
    then show ?thesis using e i3(2) by simp
  next
    case REQ_TYPE_LINE
    then show ?thesis using e write_line_ok [OF i3(1) x3 x(1), of env] by auto
  next
    case REQ_TYPE_SIZE
    have "int (outstanding (scalls (semit (Reply_chunk_start q EVHTP_RES_OK) w2)) r) + 2 \<le> INT_MAX"
      using F(2) by (simp add: w2 INT_MAX_def)
    then show ?thesis using REQ_TYPE_SIZE e write_buf_ok [OF i3(1) x3 x(1), of env] by auto
  qed
qed

lemma linecb_ok:
  assumes inv: "srv_inv w" and u: "shook (scalls w) q on_error = None"
  shows "\<exists>w'. linecb env q w = Some w' \<and> srv_inv w'"
proof (cases "senv_ok env (s_next w)")
  case False
  then show ?thesis using plain_call_ok [OF srv_inv_next [OF inv], of "Reply q EVHTP_RES_ERROR"]
    by (simp add: linecb_def req_create_def salloc_def)
next
  case True
  let ?r = "s_next w"
  let ?x = "(senv_junk env ?r)\<lparr>h_type := REQ_TYPE_NONE, h_req := Some q, refcnt := 1, buf := None\<rparr>"
  let ?y = "?x\<lparr>h_type := REQ_TYPE_LINE, max_count := 16, cur_count := 0\<rparr>"
  let ?w = "set_req ?r ?y (set_req ?r ?x (w\<lparr>s_next := Suc (s_next w)\<rparr>))"
  have "linecb env q w = req_start_response env ?r ?w"
    using True by (simp add: linecb_def req_create_def salloc_def req_set_type_line_def)
  then show ?thesis
    using start_response_ok [OF inv u, of ?w ?r ?y env] by (simp add: type_ok_def)
qed

lemma sizecb_ok:
  assumes inv: "srv_inv w" and u: "shook (scalls w) q on_error = None"
  shows "\<exists>w'. sizecb env q f w = Some w' \<and> srv_inv w'"
proof (cases "\<exists>val. f = Some val \<and> strtoull val \<noteq> - 1 \<and> senv_ok env (s_next w)")
  case False
  then show ?thesis
    using plain_call_ok [OF inv, of "Reply q EVHTP_RES_ERROR"]
      plain_call_ok [OF srv_inv_next [OF inv], of "Reply q EVHTP_RES_ERROR"]
    by (cases f) (auto simp: sizecb_def Let_def req_create_def salloc_def)
next
  case True
  then obtain val where val: "f = Some val" "strtoull val \<noteq> - 1" "senv_ok env (s_next w)" by blast
  let ?r = "s_next w"
  let ?x = "(senv_junk env ?r)\<lparr>h_type := REQ_TYPE_NONE, h_req := Some q, refcnt := 1, buf := None\<rparr>"
  let ?y = "if senv_ok env (Suc ?r) then
      ?x\<lparr>buf := Some (fill_buf BUF_SIZE (malloc_bytes env (Suc ?r) BUF_SIZE)),
                 buf_size := 65536, h_type := REQ_TYPE_SIZE, reply_size := strtoull val,
                 current_ofs := 0\<rparr> else ?x\<lparr>buf := None\<rparr>"
  let ?w = "set_req ?r ?y ((set_req ?r ?x (w\<lparr>s_next := Suc (s_next w)\<rparr>))\<lparr>s_next := Suc (Suc ?r)\<rparr>)"
  have e: "sizecb env q f w = req_start_response env ?r ?w"
    using val by (simp add: sizecb_def req_create_def salloc_def req_set_type_buf_def Let_def)
  have "type_ok ?y" by (simp add: type_ok_def filled) (simp add: BUF_SIZE_def)
  then show ?thesis
    unfolding e by (intro start_response_ok [OF inv u, where x = ?y]) auto
qed

section \<open>Every step\<close>

lemma sdeliver_ok:
  assumes inv: "srv_inv w" and en: "senabled env (scalls w) i"
  shows "\<exists>w'. sdeliver env i w = Some w' \<and> srv_inv w'"
proof (cases i)
  case (Get_line q)
  then show ?thesis using linecb_ok [OF inv] en by simp
next
  case (Get_size q f)
  then show ?thesis using sizecb_ok [OF inv] en by simp
next
  case (Write_progress q)
  then obtain r where r: "write_hook (scalls w) (senv_conn env q) = Some r"
    "shook (scalls w) q on_request_fini = Some r" "int (outstanding (scalls w) r) + 2 \<le> INT_MAX"
    using en by (auto split: option.splits)
  then obtain x where x: "reqs w r = Some x" "h_req x = Some q" using srv_invD(4) [OF inv] by blast
  have "\<exists>rc w'. send_upstream_on_write env r w = Some (rc, w') \<and> srv_inv w'"
    using write_line_ok [OF inv x, of env] write_buf_ok [OF inv x _ r(3), of env] x(1) inv
    by (cases "h_type x") (auto simp: send_upstream_on_write_def)
  then show ?thesis using Write_progress r(1) by auto
next
  case (Request_error q)
  then obtain r where r: "shook (scalls w) q on_error = Some r" using en by auto
  then obtain x where x: "reqs w r = Some x" "h_req x = Some q" using srv_invD(4) [OF inv] by blast
  then show ?thesis using Request_error r detach_ok [OF inv x]
    by (auto simp: send_upstream_error_def)
next
  case (Request_ended q)
  then obtain r where r: "shook (scalls w) q on_request_fini = Some r" using en by auto
  then obtain x where x: "reqs w r = Some x" "h_req x = Some q" using srv_invD(4) [OF inv] by blast
  then show ?thesis using Request_ended r detach_ok [OF inv x]
    by (auto simp: send_upstream_fini_def)
next
  case (Chunk_free r)
  then show ?thesis using released_ok [OF inv] en by simp
qed (use en inv in \<open>auto simp: send_upstream_new_chunk_def send_upstream_chunk_done_def
  send_upstream_chunks_done_def\<close>)

interpretation sv: event_system True "\<lambda>w. w = srv_zero" "\<lambda>i w. senabled env (scalls w) i"
  "sdeliver env" srv_inv for env
  by unfold_locales (use sdeliver_ok in \<open>auto simp: srv_inv_def srv_zero_def\<close>)

lemma srv_reachable_reach: "srv_reachable env w = sv.reach env w"
proof
  show "srv_reachable env w \<Longrightarrow> sv.reach env w"
    by (induction rule: srv_reachable.induct) (blast intro: sv.reach.intros)+
  show "sv.reach env w \<Longrightarrow> srv_reachable env w"
    by (induction rule: sv.reach.induct) (blast intro: srv_reachable.intros)+
qed

lemma srv_reachable_inv: "srv_reachable env w \<Longrightarrow> srv_inv w"
  using sv.reach_ok [of env w] by (simp add: srv_reachable_reach)

end
