(* ===== verification/Server_Properties.thy ===== *)
theory Server_Properties
  imports Server_Safety
begin

text \<open>
  The properties of the server: what the two URIs answer, byte by byte, the
  error replies, and the life of the response objects.
\<close>

definition demo_senv :: senv where
  \<comment> \<open>every allocation succeeds, one connection per request\<close>
  "demo_senv = \<lparr>senv_ok = (\<lambda>_. True),
     senv_junk = (\<lambda>_. \<lparr>h_req = None, h_type = REQ_TYPE_NONE, reply_size = 7, current_ofs = 9,
       cur_count = 5, max_count = 3, buf = None, buf_size = 0, refcnt = 0\<rparr>),
     senv_bytes = (\<lambda>_. []), senv_conn = (\<lambda>q. q + 100)\<rparr>"







text \<open>C30: every byte of the reply buffer: a line feed at the multiples of 41 and at the very
  end, and between them 40 characters each that run through the alphabet.\<close>

theorem buffer_contents:
  assumes "length b = n" "k < n"
  shows "fill_buf n b ! k = (if k mod 41 = 0 \<or> k = n - 1 then CHR 0x0A
    else char_of (65 + (k - k div 41 - 1) mod 26))"
  using assms by (simp add: fill_buf_eq pattern_def lines_before)

theorem buffer_contents_witness:
  "fill_buf 100 (replicate 100 CHR 0x00) ! 43 = CHR ''P''"
  using buffer_contents [of "replicate 100 CHR 0x00" 100 43] by (simp add: char_of_def bit_0)



section \<open>Response objects\<close>



text \<open>C29: the reference count of an object is the number of its users: the request it is
  attached to, and the chunks in output buffers that point into its buffer. It is
  freed exactly when there is none left: an object without users does not exist, and
  a chunk never points into a freed buffer.\<close>

theorem server_refcount:
  assumes "srv_reachable env w"
  shows "(\<forall>x. reqs w r = Some x \<longrightarrow>
      refcnt x = of_bool (h_req x \<noteq> None) + int (outstanding (scalls w) r) \<and> 0 < refcnt x
      \<and> (\<forall>q. h_req x = Some q \<longrightarrow> shook (scalls w) q on_request_fini = Some r)
      \<and> (0 < outstanding (scalls w) r \<longrightarrow> buf x \<noteq> None))
    \<and> (reqs w r = None \<longrightarrow> outstanding (scalls w) r = 0)"
proof -
  note I = srv_reachable_inv [OF assms]
  have "outstanding (scalls w) r = 0" if "reqs w r = None"
    using srv_invD(3) [OF I, of r] that by (cases "outstanding (scalls w) r") auto
  then show ?thesis using srv_invD(1) [OF I, of r] by (auto simp: obj_ok_def type_ok_def)
qed

theorem server_refcount_witness:
  "\<exists>w x. sdeliver demo_senv (Get_size 3 (Some ''5'')) srv_zero = Some w \<and> reqs w 0 = Some x
     \<and> refcnt x = 1 + int (outstanding (scalls w) 0) \<and> buf x \<noteq> None"
proof -
  have five: "\<not> BUF_SIZE < 5" "strtoull ''5'' = 5"
    by (simp_all add: BUF_SIZE_def strtoull_def is_space_def digits_val_def digit_val_def
        is_digit_def)
  obtain w x where w: "sdeliver demo_senv (Get_size 3 (Some ''5'')) srv_zero = Some w"
    "reqs w 0 = Some x" "h_req x \<noteq> None" "0 < outstanding (scalls w) 0"
    using five by (simp add: sizecb_def req_create_def salloc_def req_set_type_buf_def demo_senv_def
        srv_zero_def req_start_response_def response_hooks_def req_write_buf_def filled Let_def)
  have "srv_reachable demo_senv w"
    by (rule srv_reachable.step [OF srv_reachable.start _ w(1)]) (simp add: srv_zero_def)
  then show ?thesis using server_refcount [of demo_senv w 0] w by auto
qed

text \<open>C39: the error hook of an unfinished response leaves the write hook of the connection
  installed although it frees the object the hook points to; a write hook run after
  that uses freed memory.\<close>

theorem error_leaves_write_hook:
  assumes "senv_ok env (s_next w)" "outstanding (scalls w) (s_next w) = 0"
  shows "\<exists>w1 w2. linecb env q w = Some w1
    \<and> sdeliver env (Request_error q) w1 = Some w2
    \<and> write_hook (scalls w2) (senv_conn env q) = Some (s_next w)
    \<and> reqs w2 (s_next w) = None
    \<and> send_upstream_on_write env (s_next w) w2 = None"
  using assms
  by (simp add: linecb_def req_create_def salloc_def req_set_type_line_def req_start_response_def
      response_hooks_def req_write_line_def Let_def c_int_def send_upstream_error_def req_free_def
      send_upstream_on_write_def)

theorem error_leaves_write_hook_witness:
  "\<exists>w1 w2. linecb demo_senv 3 srv_zero = Some w1 \<and> sdeliver demo_senv (Request_error 3) w1 = Some w2
    \<and> write_hook (scalls w2) 103 = Some 0 \<and> send_upstream_on_write demo_senv 0 w2 = None"
  using error_leaves_write_hook [of demo_senv srv_zero 3]
  by (auto simp: demo_senv_def srv_zero_def)

end
