(* ===== verification/Worker_Behaviour.thy ===== *)
theory Worker_Behaviour
  imports Worker_Example
begin






lemmas handler_simps = clt_call_notify_def clt_mgr_conn_notify_cb_def clt_conn_timeout_stop_def
  clt_conn_timeout_rearm_def clt_mgr_conn_start_http_req_def clt_mgr_conn_destroy_def
  clt_mgr_conn_cancel_http_req_def clt_req_destroy_def upd_stats_def upd_mgr_def
  set_conn_def set_creq_def

text \<open>The manager after a request that was answered.\<close>

definition count_answer :: "int \<Rightarrow> clt_mgr \<Rightarrow> clt_mgr" where
  "count_answer status m = m\<lparr>stats := mgr_statustype_update status
     ((stats m)\<lparr>req_count_ok := req_count_ok (stats m) + 1\<rparr>)\<rparr>"

lemma count_answer_sel [simp]:
  "cfg (count_answer status m) = cfg m" "mgr_state (count_answer status m) = mgr_state m"
  "req_count (stats (count_answer status m)) = req_count (stats m)"
  "clt_mgr_reqrate_pacer_check (count_answer status m) = clt_mgr_reqrate_pacer_check m"
  by (simp_all add: count_answer_def mgr_statustype_update_def clt_mgr_reqrate_pacer_check_def)




section \<open>After the running phase\<close>

definition shrinks :: "world \<Rightarrow> world \<Rightarrow> bool" where
  \<comment> \<open>no connection is added, and one that was given up stays given up\<close>
  "shrinks w w' \<longleftrightarrow> (\<forall>c m'. conns w' c = Some m' \<longrightarrow>
     (\<exists>m. conns w c = Some m \<and> (is_dead m \<noteq> 0 \<longrightarrow> is_dead m' \<noteq> 0)))"

lemma shrinks_same: "conns w' = conns w \<Longrightarrow> shrinks w w'"
  by (simp add: shrinks_def)

lemma destroy_all_shrinks: "destroy_all cs w = Some w' \<Longrightarrow> shrinks w w'"
proof (induction cs arbitrary: w)
  case Nil
  then show ?case by (simp add: shrinks_def)
next
  case (Cons c cs)
  then obtain w1 where w1: "clt_mgr_conn_destroy c w = Some w1" "destroy_all cs w1 = Some w'"
    by (auto simp: bind_eq_Some_iff)
  have "shrinks w w1" using w1(1)
    by (auto simp: shrinks_def clt_mgr_conn_destroy_def bind_eq_Some_iff event_add_def
        event_active_def Let_def split: if_splits)
  then show ?case using Cons.IH [OF w1(2)] unfolding shrinks_def by fast
qed

lemmas timer_defs = fire_def clt_mgr_timer_def clt_mgr_timer_state_waiting_def
  clt_mgr_timer_state_cleanup_waiting_def clt_mgr_waiting_timer_def clt_mgr_cleanup_schedule_def
  clt_mgr_waiting_deschedule_def clt_mgr_running_timer_def clt_mgr_state_set_waiting_def
  clt_mgr_waiting_schedule_def clt_mgr_stat_timer_def clt_mgr_stats_notify_def event_add_def
  event_del_def

lemma timer_shrinks:
  assumes e: "mgr_ev e" and st: "mgr_state (mgr w) \<noteq> CLT_MGR_STATE_RUNNING"
    and d: "deliver env (Fire e) w = Some w'"
  shows "shrinks w w'"
proof (cases "e = T_cleanup")
  case True
  have [simp]: "shrinks (emit a w) v = shrinks w v" for a v by (simp add: shrinks_def)
  have [simp]: "shrinks w (clt_mgr_state_change s v) = shrinks w v" for s v
    by (simp add: shrinks_def clt_mgr_state_change_def)
  show ?thesis using d True shrinks_same [of "emit (Fired T_cleanup) w" w]
    by (auto simp: fire_def clt_mgr_cleanup_timer_def bind_eq_Some_iff split: if_splits
        dest!: destroy_all_shrinks)
next
  case False
  then have "conns w' = conns w" using e st d
    by (cases "mgr_state (mgr w)")
      (auto simp: mgr_ev_def timer_defs bind_eq_Some_iff Let_def split: if_splits)
  then show ?thesis by (rule shrinks_same)
qed

lemma deliver_shrinks:
  assumes ok: "worker_ok env g w" and st: "mgr_state (mgr w) \<noteq> CLT_MGR_STATE_RUNNING"
    and en: "enabled (calls w) i" and d: "deliver env i w = Some w'"
  shows "shrinks w w'"
proof -
  note O = worker_okD [OF ok]
  have ni: "mgr_state (mgr w) \<noteq> CLT_MGR_STATE_INIT"
    using O(3) by (simp add: phase_core_def Let_def split: clt_mgr_state.splits)
  have "phase_le w w' \<Longrightarrow> shrinks w w'" using st ni unfolding phase_le_def shrinks_def by blast
  moreover have "phase_le w w'" if n: "\<nexists>e. i = Fire e \<and> mgr_ev e"
  proof (cases "\<exists>e. i = Fire e")
    case True
    then obtain e where e: "i = Fire e" "\<not> mgr_ev e" using n by blast
    then obtain c r where c: "e \<in> {Ev_http_req c, Ev_conn_destroy c, Ev_timeout r}"
      by (cases e) (auto simp: mgr_ev_def)
    have l: "ev_live (calls w) e" "ev_pending (calls w) e" using en e(1) by simp_all
    obtain v where "deliver env (Fire e) w = Some v" "phase_le w v"
      using fire_conn_ok [OF O(1,2) c l] by blast
    then show ?thesis using d e(1) by simp
  next
    case False
    then show ?thesis using hook_input_ok [OF O(1,2) en] d by auto
  qed
  ultimately show ?thesis using timer_shrinks [OF _ st] d by blast
qed


section \<open>Properties\<close>





text \<open>C12: once the running phase is over no input opens a connection, and a connection that was
  given up stays so: the number of connections only goes down.\<close>

theorem worker_drains:
  assumes "event_new_ok env" "cfg_ok g" "reachable env g w"
    "mgr_state (mgr w) \<noteq> CLT_MGR_STATE_RUNNING" "enabled (calls w) i" "deliver env i w = Some w'"
  shows "dom (conns w') \<subseteq> dom (conns w) \<and> nconn (stats (mgr w')) \<le> nconn (stats (mgr w))
    \<and> (\<forall>c m m'. conns w c = Some m \<and> conns w' c = Some m' \<and> is_dead m \<noteq> 0 \<longrightarrow> is_dead m' \<noteq> 0)"
proof -
  note R = reachable_ok [OF assms(1-3)]
  have R': "worker_ok env g w'" using deliver_ok [OF R assms(5)] assms(6) by auto
  have s: "shrinks w w'" by (rule deliver_shrinks [OF R assms(4-6)])
  have card: "nconn (stats (mgr v)) = int (card (dom (conns v)))" "finite (dom (conns v))"
    if "worker_ok env g v" for v
  proof -
    note O = worker_okD(1) [OF that]
    have l: "dom (conns v) = set (mgr_conn_list (mgr v))"
      using mgr_inv_parts(4) [OF O] by (simp add: links_ok_def)
    then show "nconn (stats (mgr v)) = int (card (dom (conns v)))" "finite (dom (conns v))"
      using mgr_inv_parts(2) [OF O] by (simp_all add: counts_ok_def distinct_card)
  qed
  have d: "dom (conns w') \<subseteq> dom (conns w)" using s by (force simp: shrinks_def)
  then have "card (dom (conns w')) \<le> card (dom (conns w))" by (rule card_mono [OF card(2) [OF R]])
  then show ?thesis using d s card(1) [OF R] card(1) [OF R'] by (fastforce simp: shrinks_def)
qed

theorem worker_drains_witness:
  "\<exists>w w'. demo_run [Fire T_timer, Fire T_running] = Some w
     \<and> deliver demo_env (Fire (Ev_http_req 5)) w = Some w' \<and> nconn (stats (mgr w')) \<le> 1"
proof -
  obtain w where w: "demo_run [Fire T_timer, Fire T_running] = Some w"
    "mgr_state (mgr w) = CLT_MGR_STATE_WAITING" "enabled (calls w) (Fire (Ev_http_req 5))"
    "nconn (stats (mgr w)) = 1"
    by (simp add: run_simps clt_mgr_running_timer_def word_le_nat_alt)
  have r: "reachable demo_env demo_cfg w" by (rule demo_reachable [OF w(1)])
  obtain w' where w': "deliver demo_env (Fire (Ev_http_req 5)) w = Some w'"
    using deliver_ok [OF reachable_ok [OF demo_ok r] w(3)] by blast
  then show ?thesis using worker_drains [OF demo_ok r _ w(3) w'] w by auto
qed



text \<open>C38: the \<open>Host\<close> header of a connection is its address, whatever host name the caller of
  \<open>clt_conn_create\<close> passes.\<close>

theorem host_header_is_address:
  assumes "clt_conn_create env ncb cbdata (Some ip) hdr p w = Some (Some r, w')"
  shows "\<exists>x. creqs w' r = Some x \<and> r_host_hdr x = Some ip"
  using assms
  by (auto simp: clt_conn_create_def clt_conn_create_error_def alloc_def Let_def bind_eq_Some_iff
      set_creq_def free_creq_def event_new_def
      split: if_splits option.splits prod.splits)

theorem host_header_is_address_witness:
  "\<exists>w' x. clt_conn_create demo_env no_cb 0 (Some ''10.0.0.1'') (Some ''www.example.org'') 80
       (worker_zero demo_cfg) = Some (Some 0, w') \<and> creqs w' 0 = Some x \<and> r_host_hdr x = Some ''10.0.0.1''"
proof -
  obtain w' where w': "clt_conn_create demo_env no_cb 0 (Some ''10.0.0.1'') (Some ''www.example.org'') 80
       (worker_zero demo_cfg) = Some (Some 0, w')"
    by (simp add: clt_conn_create_def alloc_def demo_env_def worker_zero_def Let_def event_new_def
        set_creq_def emit_def)
  then show ?thesis using host_header_is_address [OF w'] by blast
qed

end
