(* ===== verification/Setup_Properties.thy ===== *)
theory Setup_Properties
  imports App_Safety
begin

text \<open>
  The properties of what happens before the threads start: the address array,
  the division of the limits, the command lines of the client and the server.
\<close>

section \<open>Addresses\<close>

fun add_all :: "string list \<Rightarrow> cfg_ipv4_array \<Rightarrow> (int \<times> cfg_ipv4_array) option" where
  \<comment> \<open>\<open>cfg_ipv4_array_add\<close> for each address, until one is refused\<close>
  "add_all [] a = Some (0, a)"
| "add_all (s # ss) a =
     do { (rc, a) \<leftarrow> cfg_ipv4_array_add True a s; if rc \<noteq> 0 then Some (rc, a) else add_all ss a }"

primrec next_addrs :: "nat \<Rightarrow> cfg_ipv4_array \<Rightarrow> (string option list \<times> cfg_ipv4_array) option" where
  \<comment> \<open>the results of so many calls of \<open>cfg_ipv4_array_get_next\<close>\<close>
  "next_addrs 0 a = Some ([], a)"
| "next_addrs (Suc k) a =
     do { (x, a) \<leftarrow> cfg_ipv4_array_get_next a; (xs, a) \<leftarrow> next_addrs k a; Some (x # xs, a) }"

lemma next_addrs_rr: "next_addrs k a = rr.get_many k a"
  by (induction k arbitrary: a) simp_all

lemma add_all_spec:
  "array_wf a \<Longrightarrow>
    if length (addrs a) + length ss \<le> 16
    then \<exists>b. add_all ss a = Some (0, b) \<and> array_wf b \<and> addrs b = addrs a @ ss \<and> arr_cur b = arr_cur a
    else \<exists>b. add_all ss a = Some (-1, b) \<and> array_wf b \<and> length (addrs b) = 16
      \<and> addrs b = addrs a @ take (16 - length (addrs a)) ss"
proof (induction ss arbitrary: a)
  case Nil
  then show ?case using array_le by auto
next
  case (Cons s ss)
  show ?case
  proof (cases "length (addrs a) < 16")
    case True
    obtain b where b: "cfg_ipv4_array_add True a s = Some (0, b)" "array_wf b" "addrs b = addrs a @ [s]"
      "arr_cur b = arr_cur a" by (rule add_room [OF Cons.prems True])
    have "16 - length (addrs a) = Suc (16 - length (addrs b))" using True b(3) by simp
    then show ?thesis using Cons.IH [OF b(2)] b by (auto split: if_splits)
  next
    case False
    then have "length (addrs a) = 16" using array_le [OF Cons.prems] by simp
    then show ?thesis using add_full [OF Cons.prems] Cons.prems by simp
  qed
qed

text \<open>C33: up to sixteen addresses come back, from the copy a worker gets, in the order they were
  given, and then from the first again: call \<open>i\<close> returns address \<open>i mod n\<close>. The seventeenth
  address is refused and changes nothing.\<close>

theorem addresses_rotate:
  assumes "ss \<noteq> []"
  shows "if length ss \<le> 16
    then \<exists>a b c. add_all ss cfg_ipv4_array_init = Some (0, a)
      \<and> cfg_ipv4_array_dup (\<lambda>_. True) cfg_ipv4_array_init a = Some b
      \<and> next_addrs k b = Some (map (\<lambda>i. Some (ss ! (i mod length ss))) [0..<k], c)
    else \<exists>a. add_all ss cfg_ipv4_array_init = Some (-1, a) \<and> addrs a = take 16 ss"
proof (cases "length ss \<le> 16")
  case False
  then show ?thesis using add_all_spec [of cfg_ipv4_array_init ss] by auto
next
  case True
  obtain a where a: "add_all ss cfg_ipv4_array_init = Some (0, a)" "array_wf a" "addrs a = ss"
    using add_all_spec [of cfg_ipv4_array_init ss] True by auto
  obtain b where b: "cfg_ipv4_array_dup (\<lambda>_. True) cfg_ipv4_array_init a = Some b" "array_wf b"
    "addrs b = ss" "arr_cur b = 0"
    using array_dup_spec [OF a(2), of cfg_ipv4_array_init] a(3) by (auto simp: cfg_ipv4_array_init_def)
  have "\<exists>c. rr.get_many k b = Some (map (\<lambda>i. map Some ss ! (i mod length ss)) [0..<k], c)"
    using rr.get_many_spec [of b k] b(2-4) assms by auto
  moreover have "map Some ss ! (i mod length ss) = Some (ss ! (i mod length ss))" for i
    using assms by simp
  ultimately show ?thesis using True a(1) b(1) by (simp add: next_addrs_rr)
qed

theorem addresses_rotate_witness:
  "\<exists>a b c. add_all [''10.0.0.1'', ''10.0.0.2''] cfg_ipv4_array_init = Some (0, a)
     \<and> cfg_ipv4_array_dup (\<lambda>_. True) cfg_ipv4_array_init a = Some b
     \<and> next_addrs 3 b = Some ([Some ''10.0.0.1'', Some ''10.0.0.2'', Some ''10.0.0.1''], c)"
  using addresses_rotate [of "[''10.0.0.1'', ''10.0.0.2'']" 3] by (simp add: upt_rec)

section \<open>Shares\<close>

lemma share_sdiv:
  assumes "in_int x" "0 < n"
  shows "0 \<le> x \<Longrightarrow> c_int (x sdiv n) = x div n"
  using assms by (simp add: sdiv_nonneg c_int_id in_int_div)

lemma share_bounds:
  assumes "in_int x" "0 < n"
  shows "0 < x \<Longrightarrow> n * share x n \<le> x \<and> x < n * (share x n + 1)" "x \<le> 0 \<Longrightarrow> share x n = x"
    "0 < x \<Longrightarrow> x < n \<Longrightarrow> share x n = 0"
  using assms share_pos [of x n] sdiv_share [of x n] by (simp_all add: sdiv_nonneg share_def)

text \<open>C32: the configuration of each of \<open>n\<close> workers: the connections, the burst, the rate and the
  two global limits are divided so that the workers together do not exceed what was given
  and lose less than one unit each, a limit that is not set stays not set, and the rest is
  copied, the addresses in their order.\<close>

theorem thread_shares:
  assumes "run_cfg_ok g" "0 < n" "0 \<le> target_nconn g" "0 \<le> burst_conn g"
  shows "\<exists>h. mgr_config_copy_thread (\<lambda>_. True) g mgr_config_zero n = Some (0, h)
    \<and> n * target_nconn h \<le> target_nconn g \<and> target_nconn g < n * (target_nconn h + 1)
    \<and> n * burst_conn h \<le> burst_conn g \<and> burst_conn g < n * (burst_conn h + 1)
    \<and> (\<forall>f \<in> {target_request_rate, target_global_request_count, target_total_nconn_count}.
         if 0 < f g then n * f h \<le> f g \<and> f g < n * (f h + 1) else f h = f g)
    \<and> addrs (ipv4_dst h) = addrs (ipv4_dst g) \<and> arr_cur (ipv4_dst h) = 0
    \<and> h\<lparr>target_nconn := target_nconn g, burst_conn := burst_conn g,
         target_request_rate := target_request_rate g,
         target_global_request_count := target_global_request_count g,
         target_total_nconn_count := target_total_nconn_count g, ipv4_dst := ipv4_dst g\<rparr> = g"
proof -
  have wf: "array_wf (ipv4_dst g)" "ints_ok g" using assms(1) by (simp_all add: run_cfg_ok_def)
  obtain u where u: "uri g = Some u" using assms(1) by (auto simp: run_cfg_ok_def)
  obtain arr where arr:
    "cfg_ipv4_array_dup (\<lambda>_. True) cfg_ipv4_array_init (ipv4_dst g) = Some arr"
    "addrs arr = addrs (ipv4_dst g)" "arr_cur arr = 0"
    using array_dup_spec [OF wf(1), of cfg_ipv4_array_init] by (auto simp: cfg_ipv4_array_init_def)
  let ?h = "g\<lparr>target_nconn := target_nconn g div n, burst_conn := burst_conn g div n,
         target_request_rate := share (target_request_rate g) n,
         target_global_request_count := share (target_global_request_count g) n,
         target_total_nconn_count := share (target_total_nconn_count g) n, ipv4_dst := arr\<rparr>"
  have "mgr_config_copy_thread (\<lambda>_. True) g mgr_config_zero n = Some (0, ?h)"
    using assms u arr(1) wf(2) share_sdiv [of "target_nconn g" n] share_sdiv [of "burst_conn g" n]
    by (cases "host_hdr g") (simp_all add: mgr_config_copy_thread_def mgr_config_zero_def Let_def ints_ok_def)
  moreover have "n * (x div n) \<le> x \<and> x < n * (x div n + 1)" if "0 \<le> x" for x
    using sdiv_share [OF that assms(2)] sdiv_nonneg [OF that assms(2)] by simp
  ultimately show ?thesis
    using assms(2-4) arr(2,3) share_bounds [of _ n] wf(2) by (auto simp: ints_ok_def)
qed

definition demo_run_cfg :: mgr_config where
  "demo_run_cfg = (mgr_config_defaults mgr_config_zero)\<lparr>num_threads := 3, port := 80, uri := Some ''/'',
     target_total_nconn_count := 2, target_request_rate := 1000,
     ipv4_dst := \<lparr>ipv4 = Some ''10.0.0.1'' # replicate 15 None, arr_n = 1, arr_cur = 0\<rparr>\<rparr>"

lemma demo_run_cfg: "run_cfg_ok demo_run_cfg"
  by (simp add: run_cfg_ok_def demo_run_cfg_def mgr_config_defaults_def mgr_config_zero_def ints_ok_def
      array_wf_def addrs_def in_int_def INT_MIN_def INT_MAX_def)

theorem thread_shares_witness:
  "\<exists>h. mgr_config_copy_thread (\<lambda>_. True) demo_run_cfg mgr_config_zero 3 = Some (0, h)
     \<and> 3 * target_nconn h \<le> 128 \<and> 3 * target_request_rate h \<le> 1000"
  using thread_shares [OF demo_run_cfg, of 3]
  by (auto simp: demo_run_cfg_def mgr_config_defaults_def)

text \<open>C37: a total number of connections smaller than the number of workers is lost: every worker
  gets the limit 0, which means no limit, so that it opens connections whatever number it
  has made, and never finishes because of it.\<close>

theorem small_limit_lost:
  assumes "run_cfg_ok g" "0 < target_total_nconn_count g" "target_total_nconn_count g < num_threads g"
    "(cfg m)\<lparr>ipv4_dst := ipv4_dst (thread_cfg g)\<rparr> = thread_cfg g"
    "mgr_state m = CLT_MGR_STATE_RUNNING" "nconn (stats m) < target_nconn (cfg m)"
  shows "target_total_nconn_count (cfg m) = 0 \<and> clt_mgr_check_create_conn m
    \<and> (target_global_request_count (cfg m) \<le> 0 \<longrightarrow> \<not> clt_mgr_check_finished m)"
proof -
  have n: "0 < num_threads g" using assms(2,3) by linarith
  have i: "in_int (target_total_nconn_count g)" using assms(1) by (simp add: run_cfg_ok_def ints_ok_def)
  have "target_total_nconn_count (thread_cfg g) = 0"
    using thread_cfg_spec(4) [OF assms(1) n] share_bounds(3) [OF i n] assms(2,3) by simp
  moreover have "target_total_nconn_count ((cfg m)\<lparr>ipv4_dst := ipv4_dst (thread_cfg g)\<rparr>)
      = target_total_nconn_count (thread_cfg g)" using assms(4) by simp
  ultimately have z: "target_total_nconn_count (cfg m) = 0" by simp
  then show ?thesis using assms(5,6)
    by (simp add: clt_mgr_check_create_conn_def clt_mgr_check_finished_def)
qed

theorem small_limit_lost_witness:
  "clt_mgr_check_create_conn ((clt_mgr_zero (thread_cfg demo_run_cfg))\<lparr>mgr_state := CLT_MGR_STATE_RUNNING,
     stats := mgr_stats_zero\<lparr>conn_count := 1000000\<rparr>\<rparr>)"
proof -
  let ?m = "(clt_mgr_zero (thread_cfg demo_run_cfg))\<lparr>mgr_state := CLT_MGR_STATE_RUNNING,
     stats := mgr_stats_zero\<lparr>conn_count := 1000000\<rparr>\<rparr>"
  have "num_threads demo_run_cfg = 3" "target_nconn demo_run_cfg = 128"
    "target_total_nconn_count demo_run_cfg = 2"
    by (simp_all add: demo_run_cfg_def mgr_config_defaults_def)
  moreover from this have "target_nconn (thread_cfg demo_run_cfg) = 42"
    using thread_cfg_spec(3) [OF demo_run_cfg] by (simp add: sdiv_nonneg c_int_def)
  ultimately show ?thesis
    using small_limit_lost [OF demo_run_cfg, of ?m] by (simp add: clt_mgr_zero_def mgr_stats_zero_def)
qed

section \<open>Command lines\<close>

text \<open>C34: parsing the client's options ends with 0 exactly when every option is accepted and there
  are at most sixteen addresses; then the addresses are the ones given, in order, and every
  other field is what the last option for it said, or its old value. Of the options in the
  table that take an argument, all but \<open>--target-global-request-count\<close> are accepted; that
  one always fails.\<close>

theorem client_options:
  assumes "array_wf (ipv4_dst g)"
  shows "(\<exists>rc g'. parse_opts (\<lambda>_. True) opts g = Some (rc, g') \<and> (rc = 0 \<or> rc = -1)
      \<and> (rc = 0 \<longleftrightarrow> list_all (\<lambda>(c, _). accepted c) opts
           \<and> length (addrs (ipv4_dst g)) + length (given OPT_HOST_IP opts) \<le> 16)
      \<and> (rc = 0 \<longrightarrow> opts_applied g opts g'))
    \<and> list_all (\<lambda>(name, arg, k). arg \<longrightarrow>
         (accepted k \<longleftrightarrow> name \<noteq> ''target-global-request-count'')) longopts
    \<and> parse_opts ok ((OPT_TARGET_GLOBAL_REQUEST_COUNT, s) # opts) g = Some (-1, g)"
  using parse_opts_result [OF assms, of opts] parse_opts_fields [OF assms, of opts]
  by (auto simp: longopts_def accepted_def)

theorem client_options_witness:
  "\<exists>g'. parse_opts (\<lambda>_. True) [(OPT_PORT, ''80''), (OPT_HOST_IP, ''10.0.0.1''), (OPT_PORT, ''8080'')]
      (mgr_config_defaults mgr_config_zero) = Some (0, g') \<and> port g' = 8080
    \<and> addrs (ipv4_dst g') = [''10.0.0.1'']"
  using client_options [OF defaults_ok(1),
      of "[(OPT_PORT, ''80''), (OPT_HOST_IP, ''10.0.0.1''), (OPT_PORT, ''8080'')]"]
  by (auto simp: accepted_def opts_applied_def defaults_ok(2) atoi_def strtol_def is_space_def
      digits_val_def digit_val_def is_digit_def c_int_def simp del: parse_opts.simps)

definition last_number :: "srv_opt \<Rightarrow> int \<Rightarrow> (srv_opt \<times> string) list \<Rightarrow> int" where
  "last_number k d args = last (d # map (atoi \<circ> snd) (filter (\<lambda>(c, _). c = k) args))"

definition srv_known :: "(srv_opt \<times> string) list \<Rightarrow> bool" where
  "srv_known args = list_all (\<lambda>(c, _). c = SRV_OPT_PORT \<or> c = SRV_OPT_NUMBER_THREADS) args"

lemma srv_parse_known:
  "srv_known args \<Longrightarrow> srv_parse_opts args app =
     (0, app\<lparr>a_port := last_number SRV_OPT_PORT (a_port app) args,
             a_ncpu := last_number SRV_OPT_NUMBER_THREADS (a_ncpu app) args\<rparr>)"
proof (induction args arbitrary: app)
  case (Cons p args)
  then show ?case by (cases p) (auto simp: last_number_def srv_known_def)
qed (simp add: last_number_def)

lemma srv_parse_unknown: "\<not> srv_known args \<Longrightarrow> fst (srv_parse_opts args app) = -1"
proof (induction args arbitrary: app)
  case (Cons p args)
  then show ?case by (cases p; cases "fst p") (auto simp: srv_known_def)
qed (simp add: srv_known_def)

text \<open>C35: the server exits with status 127 without arguments and for an option it does not know;
  otherwise it registers its two URIs and listens on the port given last (8080 when none is
  given) with the number of threads given last (1).\<close>

theorem server_start_status:
  "srv_main argc args =
    (if 2 \<le> argc \<and> srv_known args
     then Srv_loop [Max_keepalive_requests 0, Set_cb ''/line'' Linecb, Set_cb ''/size'' Sizecb,
       Use_threads (last_number SRV_OPT_NUMBER_THREADS 1 args),
       Bind_socket ''0.0.0.0'' (last_number SRV_OPT_PORT 8080 args) 1024]
     else Srv_exit 127)"
proof (cases "srv_known args")
  case True
  then show ?thesis by (simp add: srv_main_def srv_parse_known)
next
  case False
  then show ?thesis using srv_parse_unknown [OF False, of "\<lparr>a_port = 8080, a_ncpu = 1\<rparr>"]
    by (auto simp: srv_main_def split: prod.splits)
qed

end
