(* ===== verification/Spec2Isabelle.thy ===== *)
theory Spec2Isabelle
  imports App_Properties Server_Properties Worker_Behaviour Pacer_Properties Setup_Properties
begin

text \<open>
  This development models and verifies \<open>libevhtp-http\<close>: an HTTP load generator
  (\<open>src/src/clt\<close>) and the HTTP server it is run against (\<open>src/src/srv/http.c\<close>),
  both event-driven programs on libevent and libevhtp.

  \<^bold>\<open>The program.\<close> The client's \<open>main\<close> parses options into a configuration, divides
  it between worker threads, starts them and a thread that prints statistics, and
  joins all of them. A worker owns a manager (\<open>mgr.c\<close>): a state machine RUNNING,
  WAITING, CLEANUP, CLEANUP_WAITING, COMPLETED driven by timers, which opens
  connections up to its limits and gives each of them requests, at most at the rate
  the pacer grants. A connection is a client block of \<open>clt.c\<close>, which wraps the
  connection and request objects of libevhtp and reports what happens to them to the
  manager through a callback. The server answers \<open>/line\<close> and \<open>/size\<close> with response
  objects that write a chunk whenever the connection has made progress, and are
  reference counted because chunks point into their buffer.

  \<^bold>\<open>Modelling.\<close> C integers are \<open>int\<close> with the wrap-around of a 32-bit \<open>int\<close>
  written out, 64-bit counters and sizes are \<open>64 word\<close>, NULL-able pointers are
  options. Heap objects live in maps from addresses; \<open>free\<close> removes an address, and
  a handler whose C code would follow a NULL or dangling pointer, free twice, divide
  by zero or index out of range has the value \<^term>\<open>None\<close>, so that returning
  \<open>Some\<close> is the absence of undefined behaviour. The calls to libevent and libevhtp are
  recorded in a log, newest first; which events are pending, which objects exist and
  which hooks are installed is read off the log, and \<open>legal\<close> says that no call uses
  an object that does not exist. What the libraries do next is an input; an input may
  occur whenever the log allows it, in any order. Which allocations succeed is
  decided by an environment that the theorems quantify over.

  \<^bold>\<open>Theories.\<close>
  \<^item> \<open>Prelude\<close>: C integers, truncating division, \<open>strdup\<close>. \<open>Event_System\<close>: the
    contract of an event-driven part, interpreted for the worker (\<open>ws\<close>), the client
    process (\<open>ap\<close>) and the server (\<open>sv\<close>).
  \<^item> \<open>Stats\<close> (\<open>mgr_stats.c\<close>), \<open>Config\<close> (\<open>mgr_config.c\<close>), \<open>Numbers\<close>
    (\<open>atoi\<close>, \<open>strtoull\<close>), \<open>Options\<close> (\<open>parse_opts\<close> of both programs and the server's
    \<open>main\<close>). The locale \<open>counter_block\<close> (interpretation \<open>st\<close>) carries the sums and
    differences of the reports, \<open>round_robin\<close> (\<open>rr\<close>) the order of the addresses.
  \<^item> \<open>Library_Calls\<close>, \<open>State\<close>: the log, the structures of \<open>clt.h\<close> and \<open>mgr.h\<close>.
  \<^item> \<open>Clt\<close>: every function of \<open>clt.c\<close>. \<open>Clt_Safety\<close>: who owns which library
    object (\<open>clt_inv\<close>) and the transfers of ownership. \<open>Clt_Contract\<close>: the locale
    \<open>notify_client\<close> states what \<open>clt.c\<close> relies on in its callback, and every handler is
    proved once against it; \<open>Mgr_Safety\<close> discharges it for the callback of \<open>mgr.c\<close>
    (interpretation \<open>nc\<close>).
  \<^item> \<open>Pacer\<close>, \<open>Mgr\<close>: every function of \<open>mgr.c\<close>. \<open>Mgr_Invariant\<close>, \<open>Mgr_Create\<close>,
    \<open>Mgr_Safety\<close>, \<open>Mgr_Phases\<close>: the invariant \<open>mgr_inv\<close> (counts, links, events and
    limits of the connections), its preservation by each operation, and which timers
    each state has.
  \<^item> \<open>Worker\<close>, \<open>Worker_Runs\<close>: a worker with its event loop, the invariant
    \<open>worker_ok\<close>, and how runs end. \<open>Worker_Behaviour\<close>: what a worker does with a
    response, a timeout, the event that issues a request. \<open>Worker_Example\<close>: a concrete
    worker for the instances. \<open>Pacer_Properties\<close>: the rate over many intervals.
  \<^item> \<open>App\<close> (\<open>main.c\<close>, \<open>thr.c\<close>): the process as interleaved steps of \<open>main\<close>, the
    workers and the reporting thread. \<open>App_Safety\<close>: what \<open>main\<close> sets up;
    \<open>App_Runs\<close>: the invariant of the process; \<open>App_Ends\<close>: the end of the process and
    its reports; \<open>App_Properties\<close>, \<open>Setup_Properties\<close>: the theorems about it.
  \<^item> \<open>Server\<close>: the response objects of \<open>http.c\<close> and their hooks. \<open>Server_Writers\<close>:
    the locale \<open>chunk_writer\<close> with the line writer and the buffer writer as its
    interpretations (\<open>lw\<close>, \<open>bw\<close>). \<open>Server_Safety\<close>: the reference counts.
    \<open>Server_Properties\<close>: the theorems about the server.

  \<^bold>\<open>What is shown.\<close> No handler of a worker, of the client process or of the server
  reaches undefined behaviour, in any order of events and any pattern of failing
  allocations that the code checks; every library call is legal; connections are
  never lost and never exceed the limits, for one worker and for all together; the
  state machine only moves forward, has the timers it needs, and can always be run
  to its end, after which everything is released; responses, timeouts and new
  requests have exactly the effects stated; the pacer keeps its rate from above and
  reaches it from below; the reports add up; the server sends exactly the bytes it
  should, and its reference counts are exact. The last group of theorems
  (\<open>pacer_starves\<close>, \<open>small_limit_lost\<close>, \<open>host_header_is_address\<close>,
  \<open>error_leaves_write_hook\<close>, \<open>client_stale_total\<close>) states behaviour that the
  code probably does not intend.

  \<^bold>\<open>Assumptions.\<close> The results of \<open>event_new\<close> and of the \<open>strdup\<close> calls that build
  the configuration are not checked in the sources; the theorems assume that they
  succeed (\<open>event_new_ok\<close>, \<open>aenv_ok\<close>). libevhtp runs the fini hook of a connection at
  most once and frees the connection after it; whether \<open>evhtp_connection_free\<close> runs
  it is left open (\<open>env_fini_hook\<close>). A connection whose request has ended makes no
  write progress on it (\<open>senabled\<close>), and the chunks of one response in an output
  buffer can be counted by an \<open>int\<close>. An access to \<open>prev_stats\<close> under its mutex is one
  step. Loops are structural or have a termination proof (\<open>create_loop\<close>,
  \<open>fill_loop\<close>); no fuel is used.

  \<^bold>\<open>Not modelled.\<close> The text layout of the printed lines, \<open>usage\<close> and the debugging
  macros (pure output); the internals of \<open>getopt_long\<close> (the input of the parsers is
  its sequence of results), of libevent, libevhtp and the threads library; failing
  \<open>evbuffer_new\<close> and \<open>event_base_new\<close>; signal handlers, which are empty; the unused
  \<open>struct thr\<close> of the server and code under \<open>#if 0\<close>.
\<close>

section \<open>A worker\<close>





text \<open>C4: every connection object the library holds belongs to exactly one connection of the
  manager, through exactly one client block: none is lost while a worker runs.\<close>

theorem worker_connections_owned:
  assumes "event_new_ok env" "cfg_ok g" "reachable env g w" "con_live (calls w) k"
  shows "\<exists>!c. \<exists>m r x. conns w c = Some m \<and> c_req m = Some r \<and> creqs w r = Some x
    \<and> r_con x = Some k"
proof -
  note O = worker_okD [OF reachable_ok [OF assms(1-3)]]
  obtain r x where r: "creqs w r = Some x" "r_con x = Some k"
    using clt_inv_parts(4) [OF O(2) assms(4)] by (auto simp: con_owned_def dest!: rcon_eqD)
  then have "\<exists>m. conns w (r_cbdata x) = Some m \<and> c_req m = Some r"
    using owner_conn [OF O(1), of r] by (simp add: owner_of_def)
  moreover have "c = r_cbdata x" if "conns w c = Some m" "c_req m = Some r'" "creqs w r' = Some x'"
    "r_con x' = Some k" for c m r' x'
  proof -
    have "r' = r" by (rule con_owner_unique [OF O(2) that(3) r(1) that(4) r(2)])
    then show ?thesis using mgr_inv_connD(6) [OF O(1) that(1)] that(2) r(1) by auto
  qed
  ultimately show ?thesis using r by (intro ex1I [of _ "r_cbdata x"]) blast+
qed

theorem worker_connections_owned_witness:
  "\<exists>w. demo_run [Fire T_timer, Fire (Ev_http_req 5)] = Some w
    \<and> (\<exists>!c. \<exists>m r x. conns w c = Some m \<and> c_req m = Some r \<and> creqs w r = Some x
        \<and> r_con x = Some 9)"
proof -
  obtain w where w: "demo_run [Fire T_timer, Fire (Ev_http_req 5)] = Some w" "con_live (calls w) 9"
    using demo_busy by blast
  then show ?thesis
    using worker_connections_owned [OF demo_ok demo_reachable [OF w(1)] w(2)] by blast
qed

section \<open>The state machine\<close>

text \<open>C6: an input moves the manager at most one state forward along
  RUNNING, WAITING, CLEANUP, CLEANUP_WAITING, COMPLETED, and never back.\<close>

theorem worker_state_forward:
  assumes "event_new_ok env" "cfg_ok g" "reachable env g w" "enabled (calls w) i"
    "deliver env i w = Some w'"
  shows "(mgr_state (mgr w') = mgr_state (mgr w) \<or> state_step (mgr_state (mgr w)) (mgr_state (mgr w')))
    \<and> CLT_MGR_STATE_RUNNING \<le> mgr_state (mgr w) \<and> mgr_state (mgr w) \<le> mgr_state (mgr w')"
proof -
  have R: "worker_ok env g w" by (rule reachable_ok [OF assms(1-3)])
  have "CLT_MGR_STATE_RUNNING \<le> mgr_state (mgr w)"
    using worker_okD(3) [OF R]
    by (simp add: phase_core_def less_eq_clt_mgr_state_def Let_def split: clt_mgr_state.splits)
  moreover have "advances (mgr_state (mgr w)) (mgr_state (mgr w'))"
    using deliver_ok [OF R assms(4)] assms(5) by auto
  ultimately show ?thesis using state_step_less by (auto simp: advances_def intro: less_imp_le)
qed

theorem worker_state_forward_witness:
  "\<exists>w w'. demo_run [Fire T_timer, Fire (Ev_http_req 5)] = Some w
     \<and> deliver demo_env (Request_done 14 200) w = Some w'
     \<and> mgr_state (mgr w') \<in> {CLT_MGR_STATE_RUNNING, CLT_MGR_STATE_WAITING}"
proof -
  obtain w where w: "demo_run [Fire T_timer, Fire (Ev_http_req 5)] = Some w"
    "enabled (calls w) (Request_done 14 200)" "mgr_state (mgr w) = CLT_MGR_STATE_RUNNING"
    using demo_busy by blast
  then have r: "reachable demo_env demo_cfg w" using demo_reachable by blast
  obtain w' where w': "deliver demo_env (Request_done 14 200) w = Some w'"
    using deliver_ok [OF reachable_ok [OF demo_ok r] w(2)] by blast
  then show ?thesis
    using worker_state_forward [OF demo_ok r w(2) w'] w by (auto simp: state_step_simps)
qed

text \<open>C18: in every reachable state the timers that are pending are the ones the state needs:
  the periodic timer until completion, the waiting timer exactly in WAITING, the
  cleanup timer exactly in CLEANUP, the running timer only in RUNNING (and there
  whenever a running time is set).\<close>

theorem worker_timers:
  assumes "event_new_ok env" "cfg_ok g" "reachable env g w"
  shows "(ev_pending (calls w) T_timer \<longleftrightarrow> mgr_state (mgr w) \<noteq> CLT_MGR_STATE_COMPLETED)
    \<and> (ev_pending (calls w) T_wait \<longleftrightarrow> mgr_state (mgr w) = CLT_MGR_STATE_WAITING)
    \<and> (ev_pending (calls w) T_cleanup \<longleftrightarrow> mgr_state (mgr w) = CLT_MGR_STATE_CLEANUP)
    \<and> (ev_pending (calls w) T_running \<longrightarrow> mgr_state (mgr w) = CLT_MGR_STATE_RUNNING)
    \<and> (mgr_state (mgr w) = CLT_MGR_STATE_RUNNING \<and> 0 \<le> running_period_sec g
         \<longrightarrow> ev_pending (calls w) T_running)"
proof -
  note O = worker_okD [OF reachable_ok [OF assms]]
  have "running_period_sec ((cfg (mgr w))\<lparr>ipv4_dst := ipv4_dst g\<rparr>) = running_period_sec g"
    using O(5) by simp
  then show ?thesis
    using O(3,4) by (auto simp: phase_core_def ticking_def Let_def split: clt_mgr_state.splits)
qed

theorem worker_timers_witness:
  "\<exists>w. demo_run [Fire T_timer, Fire (Ev_http_req 5)] = Some w
     \<and> ev_pending (calls w) T_timer \<and> ev_pending (calls w) T_running
     \<and> \<not> ev_pending (calls w) T_wait \<and> \<not> ev_pending (calls w) T_cleanup"
proof -
  obtain w where w: "demo_run [Fire T_timer, Fire (Ev_http_req 5)] = Some w"
    "mgr_state (mgr w) = CLT_MGR_STATE_RUNNING"
    using demo_busy by blast
  have "0 \<le> running_period_sec demo_cfg" by (simp add: demo_cfg_def)
  then show ?thesis
    using worker_timers [OF demo_ok demo_reachable [OF w(1)]] w by auto
qed



text \<open>C21: the event loop of a worker has nothing left to wait for exactly when the manager
  has completed and the last statistics are reported; the thread's published
  statistics are then the manager's final ones.\<close>

theorem worker_loop_end:
  assumes "event_new_ok env" "cfg_ok g" "reachable env g w"
  shows "((\<forall>e. \<not> (ev_live (calls w) e \<and> ev_pending (calls w) e)) \<longleftrightarrow>
      mgr_state (mgr w) = CLT_MGR_STATE_COMPLETED \<and> \<not> ev_pending (calls w) T_stat)
    \<and> ((\<forall>e. \<not> (ev_live (calls w) e \<and> ev_pending (calls w) e)) \<longrightarrow> prev_stats w = stats (mgr w))"
proof -
  note R = reachable_ok [OF assms]
  have "ticking w" by (rule worker_okD(4) [OF R])
  then show ?thesis using idle_completed [OF R] by (auto simp: ticking_def)
qed

theorem worker_loop_end_witness:
  "\<exists>w. reachable demo_env demo_cfg w \<and> (\<forall>e. \<not> (ev_live (calls w) e \<and> ev_pending (calls w) e))
     \<and> prev_stats w = stats (mgr w)"
  using demo_done worker_loop_end [OF demo_ok] by blast

text \<open>C20: when the manager has completed, every connection, request, client block and event
  of a connection has been released; only the five timers of the manager remain.\<close>

theorem worker_completed_clean:
  assumes "event_new_ok env" "cfg_ok g" "reachable env g w"
    "mgr_state (mgr w) = CLT_MGR_STATE_COMPLETED"
  shows "conns w = Map.empty \<and> creqs w = Map.empty \<and> nconn (stats (mgr w)) = 0
    \<and> (\<forall>k. \<not> con_live (calls w) k) \<and> (\<forall>q. \<not> req_live (calls w) q)
    \<and> {e. ev_live (calls w) e} = {T_timer, T_stat, T_running, T_wait, T_cleanup}"
proof -
  note O = worker_okD [OF reachable_ok [OF assms(1-3)]]
  have c: "conns w = Map.empty" using O(3) assms(4) by (simp add: phase_core_def Let_def)
  note N = no_conns [OF O(1,2) c]
  have "nconn (stats (mgr w)) = 0"
    using mgr_inv_parts(2,4) [OF O(1)] c by (simp add: counts_ok_def links_ok_def)
  moreover have "ev_live (calls w) e \<longleftrightarrow> mgr_ev e" for e
    using N mgr_ev_live [OF O(1), of e] by (cases e) auto
  then have "{e. ev_live (calls w) e} = {T_timer, T_stat, T_running, T_wait, T_cleanup}"
    by (auto simp: mgr_ev_def)
  ultimately show ?thesis using c N by simp
qed

theorem worker_completed_clean_witness:
  "\<exists>w. reachable demo_env demo_cfg w \<and> mgr_state (mgr w) = CLT_MGR_STATE_COMPLETED
     \<and> conns w = Map.empty \<and> (\<forall>k. \<not> con_live (calls w) k)"
  using demo_done worker_completed_clean [OF demo_ok] by blast

section \<open>Limits\<close>







end
